theory Spec2Isabelle
  imports Main
begin

section \<open>Strings\<close>

text \<open>
  The server is TypeScript; its strings are modelled as \<^typ>\<open>string\<close> holding the
  UTF-8 bytes of the text. Every function of \<^verbatim>\<open>server.ts\<close> modelled here
  inspects ASCII characters only and treats every other character as an opaque
  member of a run, so the choice of UTF-8 bytes over UTF-16 code units changes no result:
  \<^verbatim>\<open>escapeXml\<close> copies non-ASCII text unchanged and
  \<^verbatim>\<open>sanitizeFilename\<close> replaces a run of it by one underscore.
\<close>

definition dq :: char where
  "dq = CHR 0x22"

definition sq :: char where
  "sq = CHR 0x27"

text \<open>Template literals print a number in decimal: \<^verbatim>\<open>`${testsCount}`\<close>.\<close>

definition digit_char :: "nat \<Rightarrow> char" where
  "digit_char d = ''0123456789'' ! d"

fun string_of_nat :: "nat \<Rightarrow> string" where
  "string_of_nat n = (if n < 10 then [digit_char n] else string_of_nat (n div 10) @ [digit_char (n mod 10)])"

declare string_of_nat.simps [simp del]

text \<open>\<^verbatim>\<open>s.replace(/c/g, r)\<close> for a one-character pattern \<open>c\<close>.\<close>

definition replace_char :: "char \<Rightarrow> string \<Rightarrow> string \<Rightarrow> string" where
  "replace_char c r s = concat (map (\<lambda>x. if x = c then r else [x]) s)"

text \<open>
  \<^verbatim>\<open>
  function escapeXml(s: string): string {
    return String(s).replace(/&/g, "&amp;").replace(/</g, "&lt;").replace(/>/g, "&gt;")
      .replace(/"/g, "&quot;").replace(/'/g, "&apos;");
  }
  \<close>
  Five passes over the whole string, the ampersand first.
\<close>

definition escapeXml :: "string \<Rightarrow> string" where
  "escapeXml s =
     replace_char sq ''&apos;''
       (replace_char dq ''&quot;''
         (replace_char (CHR ''>'') ''&gt;''
           (replace_char (CHR ''<'') ''&lt;''
             (replace_char (CHR ''&'') ''&amp;'' s))))"

text \<open>
  \<^verbatim>\<open>
  function sanitizeFilename(name: string): string {
    return String(name).replace(/[^a-zA-Z0-9-_\.]+/g, "_").slice(0, 100);
  }
  \<close>
  The class keeps letters, digits, the hyphen, the underscore and the dot; every maximal
  run of other characters becomes one underscore. \<open>collapse_runs\<close> scans left to right;
  its flag says whether the previous character was already part of a replaced run.
\<close>

definition filename_char :: "char \<Rightarrow> bool" where
  "filename_char c \<longleftrightarrow>
     c \<in> set ''abcdefghijklmnopqrstuvwxyzABCDEFGHIJKLMNOPQRSTUVWXYZ0123456789-_.''"

fun collapse_runs :: "bool \<Rightarrow> string \<Rightarrow> string" where
  "collapse_runs in_run [] = []"
| "collapse_runs in_run (c # cs) =
     (if filename_char c then c # collapse_runs False cs
      else if in_run then collapse_runs True cs
      else CHR ''_'' # collapse_runs True cs)"

definition sanitizeFilename :: "string \<Rightarrow> string" where
  "sanitizeFilename name = take 100 (collapse_runs False name)"

section \<open>Result records\<close>

text \<open>
  \<^verbatim>\<open>const results: any = { setup: [], tests: [], teardown: [], junit: null };\<close>

  Two shapes of object are pushed on these arrays. \<^verbatim>\<open>runSteps\<close> pushes
  \<^verbatim>\<open>{ name, ok: true }\<close> or \<^verbatim>\<open>{ name, ok: false, message }\<close> for a step
  (on \<^verbatim>\<open>results.tests\<close> too, when the phase is \<^verbatim>\<open>"test"\<close>), and the
  test loop pushes \<^verbatim>\<open>{ name, ok, error, artifacts }\<close> for a test.
\<close>

datatype entry =
  StepEntry string bool "string option"
| TestEntry string bool "string option" "string list"

fun e_name :: "entry \<Rightarrow> string" where
  "e_name (StepEntry n ok m) = n"
| "e_name (TestEntry n ok e arts) = n"

fun e_ok :: "entry \<Rightarrow> bool" where
  "e_ok (StepEntry n ok m) = ok"
| "e_ok (TestEntry n ok e arts) = ok"

text \<open>\<^verbatim>\<open>t.error\<close>: a step's record has no such property (\<^verbatim>\<open>undefined\<close>).\<close>

fun e_error :: "entry \<Rightarrow> string option" where
  "e_error (StepEntry n ok m) = None"
| "e_error (TestEntry n ok e arts) = e"

fun is_test_entry :: "entry \<Rightarrow> bool" where
  "is_test_entry (StepEntry n ok m) = False"
| "is_test_entry (TestEntry n ok e arts) = True"

record results =
  r_setup :: "entry list"
  r_tests :: "entry list"
  r_teardown :: "entry list"
  r_junit :: "string option"

definition empty_results :: results where
  "empty_results = \<lparr>r_setup = [], r_tests = [], r_teardown = [], r_junit = None\<rparr>"

section \<open>The report builder\<close>

text \<open>
  \<^verbatim>\<open>
  function buildJUnit(results: any): string {
    const tests = results.tests.filter((t: any) => typeof t.ok === "boolean");
    const testsCount = tests.length;
    const failures = tests.filter((t: any) => !t.ok).length;
    const cases = tests.map((t: any) => t.ok ? `<testcase name="${escapeXml(t.name)}"/>`
      : `<testcase name="${escapeXml(t.name)}"><failure message="${escapeXml(t.error || "error")}"/></testcase>`).join("");
    return `<?xml version="1.0" encoding="UTF-8"?><testsuite name="mcp-web-autotest" tests="${testsCount}" failures="${failures}">${cases}</testsuite>`;
  }
  \<close>
  Every object pushed on \<^verbatim>\<open>results.tests\<close> has a boolean \<^verbatim>\<open>ok\<close>, so the first
  filter keeps every entry. \<^verbatim>\<open>t.error || "error"\<close> is \<^verbatim>\<open>"error"\<close> when the
  property is missing or the empty string.
\<close>

definition has_boolean_ok :: "entry \<Rightarrow> bool" where
  "has_boolean_ok t = True"

definition error_or_default :: "entry \<Rightarrow> string" where
  "error_or_default t = (case e_error t of None \<Rightarrow> ''error'' | Some m \<Rightarrow> if m = [] then ''error'' else m)"

definition testcase :: "entry \<Rightarrow> string" where
  "testcase t =
     (if e_ok t then ''<testcase name='' @ [dq] @ escapeXml (e_name t) @ [dq] @ ''/>''
      else ''<testcase name='' @ [dq] @ escapeXml (e_name t) @ [dq] @ ''><failure message='' @ [dq]
             @ escapeXml (error_or_default t) @ [dq] @ ''/></testcase>'')"

definition junit_open :: "nat \<Rightarrow> nat \<Rightarrow> string" where
  "junit_open testsCount failures =
     ''<?xml version='' @ [dq] @ ''1.0'' @ [dq] @ '' encoding='' @ [dq] @ ''UTF-8'' @ [dq]
     @ ''?><testsuite name='' @ [dq] @ ''mcp-web-autotest'' @ [dq]
     @ '' tests='' @ [dq] @ string_of_nat testsCount @ [dq]
     @ '' failures='' @ [dq] @ string_of_nat failures @ [dq] @ ''>''"

definition buildJUnit :: "results \<Rightarrow> string" where
  "buildJUnit rs =
     (let tests = filter has_boolean_ok (r_tests rs);
          testsCount = length tests;
          failures = length (filter (\<lambda>t. \<not> e_ok t) tests);
          cases = concat (map testcase tests)
      in junit_open testsCount failures @ cases @ ''</testsuite>'')"

section \<open>Browser state and the driver\<close>

text \<open>
  \<^verbatim>\<open>
  type BrowserContextState = {
    browser: Browser | null; page: Page | null;
    pages: Map<string, Page>; currentPageId: string | null; };
  const state: BrowserContextState = { browser: null, page: null, pages: new Map(), currentPageId: null };
  let pageIdCounter = 1;
  \<close>
  A \<open>Browser\<close> object is modelled by what \<^verbatim>\<open>chromium.launch\<close> was given (the
  \<^verbatim>\<open>headless\<close> flag and the argument list), a \<open>Page\<close> object by a number that
  identifies it. A JavaScript \<open>Map\<close> iterates in insertion order, so \<open>pages\<close> is an
  association list in that order.

  Playwright, the file system and the clock are outside the repository. The \<open>world\<close>
  carries, next to the module's variables, a \<open>script\<close>: the outcomes of the calls made
  to them, in the order the calls are made. Every such call is taken to return or to
  throw (Playwright's waits carry timeouts). The program is sequential, so every behaviour
  of its environment is some script; an exhausted script lets every further call succeed.
\<close>

datatype browser = Browser bool "string list"

type_synonym page = nat

datatype outcome = Done | Throws string

record world =
  browser :: "browser option"
  page :: "page option"
  pages :: "(string \<times> page) list"
  currentPageId :: "string option"
  pageIdCounter :: nat
  script :: "outcome list"
  fresh :: nat
  cwd :: string
  now :: nat

definition initial_world :: world where
  "initial_world = \<lparr>browser = None, page = None, pages = [], currentPageId = None,
     pageIdCounter = 1, script = [], fresh = 0, cwd = ''/srv'', now = 0\<rparr>"

text \<open>One call to the environment: the next outcome of the script.\<close>

definition driver :: "world \<Rightarrow> outcome \<times> world" where
  "driver w = (case script w of [] \<Rightarrow> (Done, w) | x # xs \<Rightarrow> (x, w\<lparr>script := xs\<rparr>))"

text \<open>\<open>await a; rest\<close>: the rest runs only when \<open>a\<close> did not throw.\<close>

definition and_then :: "outcome \<times> world \<Rightarrow> (world \<Rightarrow> outcome \<times> world) \<Rightarrow> outcome \<times> world" where
  "and_then r f = (case r of (Done, w) \<Rightarrow> f w | (Throws m, w) \<Rightarrow> (Throws m, w))"

text \<open>\<open>Map.set\<close> keeps the position of a key that is present and appends a new one.\<close>

fun map_set :: "string \<Rightarrow> page \<Rightarrow> (string \<times> page) list \<Rightarrow> (string \<times> page) list" where
  "map_set k v [] = [(k, v)]"
| "map_set k v (p # ps) = (if fst p = k then (k, v) # ps else p # map_set k v ps)"

definition map_delete :: "string \<Rightarrow> (string \<times> page) list \<Rightarrow> (string \<times> page) list" where
  "map_delete k ps = filter (\<lambda>p. fst p \<noteq> k) ps"

text \<open>\<^verbatim>\<open>state.pages.keys().next().value\<close>\<close>

definition first_key :: "(string \<times> page) list \<Rightarrow> string option" where
  "first_key ps = (case ps of [] \<Rightarrow> None | p # _ \<Rightarrow> Some (fst p))"

text \<open>
  \<^verbatim>\<open>
  function nextPageId(): string { const id = `page${pageIdCounter++}`; return id; }
  \<close>
\<close>

definition nextPageId :: "world \<Rightarrow> string \<times> world" where
  "nextPageId w = (''page'' @ string_of_nat (pageIdCounter w), w\<lparr>pageIdCounter := pageIdCounter w + 1\<rparr>)"

subsection \<open>Error messages\<close>

text \<open>
  The messages are Chinese text in the source, written here as their UTF-8 bytes.
  A \<^verbatim>\<open>McpError\<close> is built by the SDK from a code and a text; its constructor
  passes \<^verbatim>\<open>`MCP error ${code}: ${message}`\<close> to \<^verbatim>\<open>Error\<close>, and
  \<^verbatim>\<open>ErrorCode.InvalidRequest\<close> is \<open>-32600\<close>.
\<close>

definition msg_unknown_tool :: string where
  "msg_unknown_tool = [CHR 0xE6, CHR 0x9C, CHR 0xAA, CHR 0xE7, CHR 0x9F, CHR 0xA5,
     CHR 0xE5, CHR 0xB7, CHR 0xA5, CHR 0xE5, CHR 0x85, CHR 0xB7]"

definition invalid_request :: "string \<Rightarrow> string" where
  "invalid_request text = ''MCP error -32600: '' @ text"

definition msg_open_first :: string where
  "msg_open_first = invalid_request
     ([CHR 0xE8, CHR 0xAF, CHR 0xB7, CHR 0xE5, CHR 0x85, CHR 0x88, CHR 0xE8, CHR 0xB0, CHR 0x83,
       CHR 0xE7, CHR 0x94, CHR 0xA8] @ '' browser_open '' @
      [CHR 0xE6, CHR 0x89, CHR 0x93, CHR 0xE5, CHR 0xBC, CHR 0x80, CHR 0xE6, CHR 0xB5, CHR 0x8F,
       CHR 0xE8, CHR 0xA7, CHR 0x88, CHR 0xE5, CHR 0x99, CHR 0xA8])"

definition msg_unknown_page :: "string \<Rightarrow> string" where
  "msg_unknown_page pid = invalid_request
     ([CHR 0xE6, CHR 0x9C, CHR 0xAA, CHR 0xE7, CHR 0x9F, CHR 0xA5] @ '' pageId: '' @ pid)"

definition msg_no_page_id :: string where
  "msg_no_page_id = invalid_request
     ([CHR 0xE6, CHR 0xB2, CHR 0xA1, CHR 0xE6, CHR 0x9C, CHR 0x89, CHR 0xE5, CHR 0x8F, CHR 0xAF,
       CHR 0xE5, CHR 0x85, CHR 0xB3, CHR 0xE9, CHR 0x97, CHR 0xAD, CHR 0xE7, CHR 0x9A, CHR 0x84]
      @ '' pageId'')"

text \<open>
  What V8 reports when \<^verbatim>\<open>tool.inputSchema.parse\<close> is evaluated on a value without
  an \<^verbatim>\<open>inputSchema\<close>, and what zod reports for a missing \<^verbatim>\<open>id\<close> (abridged: the
  library prints the issue list as JSON).
\<close>

definition msg_no_schema :: string where
  "msg_no_schema = ''Cannot read properties of undefined (reading '' @ [sq] @ ''parse'' @ [sq] @ '')''"

definition msg_id_required :: string where
  "msg_id_required = ''id: Required''"

subsection \<open>Arguments and steps\<close>

text \<open>
  A step is \<^verbatim>\<open>{ name: string, arguments?: Record<string, any> }\<close>. Of the arguments,
  the model keeps the properties read by the handlers that change \<^verbatim>\<open>state\<close>; a
  missing property is \<open>None\<close>, and a missing \<^verbatim>\<open>arguments\<close> object is the record of
  missing properties (\<^verbatim>\<open>step.arguments ?? {}\<close>). The arguments of the other tools
  (selectors, URLs, texts) only reach Playwright and are left to the environment.
\<close>

record arguments =
  a_headless :: "bool option"
  a_disableExtensions :: "bool option"
  a_args :: "string list option"
  a_lang :: "string option"
  a_id :: "string option"

definition no_arguments :: arguments where
  "no_arguments = \<lparr>a_headless = None, a_disableExtensions = None, a_args = None,
     a_lang = None, a_id = None\<rparr>"

record step =
  s_name :: string
  s_arguments :: arguments

subsection \<open>The handlers that change the state\<close>

text \<open>
  \<^verbatim>\<open>
  function ensurePage(): Page {
    if (!state.browser || !state.page) { throw new McpError(ErrorCode.InvalidRequest, "...") }
    return state.page;
  }
  \<close>
\<close>

definition ensurePage :: "world \<Rightarrow> string + page" where
  "ensurePage w =
     (case browser w of None \<Rightarrow> Inl msg_open_first
      | Some b \<Rightarrow> (case page w of None \<Rightarrow> Inl msg_open_first | Some p \<Rightarrow> Inr p))"

text \<open>
  \<^verbatim>\<open>
  async browser_open(input) {
    if (state.browser) { await state.browser.close(); }
    // const headless = input.headless ?? getEnvBoolean("MCP_HEADLESS", true);
    const headless =false
    const launchArgs: string[] = [];
    if (input.disableExtensions ?? true) { launchArgs.push("--disable-extensions", ...); }
    if (input.lang) { launchArgs.push(`--lang=${input.lang}`); }
    if (Array.isArray(input.args) && input.args.length) { launchArgs.push(...input.args); }
    state.browser = await chromium.launch({ headless, args: launchArgs });
    const context = await state.browser.newContext();
    state.page = await context.newPage();
    state.pages.clear();
    const defaultId = nextPageId();
    state.pages.set(defaultId, state.page);
    state.currentPageId = defaultId;
    return ...;
  }
  \<close>
\<close>

definition launchArgs :: "arguments \<Rightarrow> string list" where
  "launchArgs input =
     (if (case a_disableExtensions input of None \<Rightarrow> True | Some b \<Rightarrow> b)
      then [''--disable-extensions'', ''--disable-component-extensions-with-background-pages'',
            ''--disable-features=ExtensionsToolbarMenu'']
      else [])
     @ (case a_lang input of None \<Rightarrow> [] | Some l \<Rightarrow> if l = [] then [] else [''--lang='' @ l])
     @ (case a_args input of None \<Rightarrow> [] | Some xs \<Rightarrow> xs)"

definition browser_open :: "arguments \<Rightarrow> world \<Rightarrow> outcome \<times> world" where
  "browser_open input w =
     and_then (case browser w of None \<Rightarrow> (Done, w) | Some b \<Rightarrow> driver w) (\<lambda>w1.
       let headless = False in
       and_then (driver w1) (\<lambda>w2.
         and_then (driver (w2\<lparr>browser := Some (Browser headless (launchArgs input))\<rparr>)) (\<lambda>w3.
           and_then (driver w3) (\<lambda>w4.
             let newPage = fresh w4;
                 w5 = w4\<lparr>fresh := newPage + 1, page := Some newPage, pages := []\<rparr>;
                 (defaultId, w6) = nextPageId w5
             in (Done, w6\<lparr>pages := map_set defaultId newPage (pages w6),
                          currentPageId := Some defaultId\<rparr>)))))"

text \<open>
  \<^verbatim>\<open>
  async browser_close() {
    if (state.browser) {
      await state.browser.close();
      state.browser = null; state.page = null; state.pages.clear(); state.currentPageId = null;
    }
    return ...;
  }
  \<close>
\<close>

definition browser_close :: "world \<Rightarrow> outcome \<times> world" where
  "browser_close w =
     (case browser w of None \<Rightarrow> (Done, w)
      | Some b \<Rightarrow> and_then (driver w) (\<lambda>w1.
          (Done, w1\<lparr>browser := None, page := None, pages := [], currentPageId := None\<rparr>)))"

text \<open>
  \<^verbatim>\<open>
  async page_new(input) {
    const page = ensurePage();
    const context = page.context();
    const newPage = await context.newPage();
    const id = input.id ?? nextPageId();
    state.pages.set(id, newPage); state.page = newPage; state.currentPageId = id;
    return ...;
  }
  \<close>
\<close>

definition page_new :: "arguments \<Rightarrow> world \<Rightarrow> outcome \<times> world" where
  "page_new input w =
     (case ensurePage w of Inl m \<Rightarrow> (Throws m, w)
      | Inr p \<Rightarrow> and_then (driver w) (\<lambda>w1.
          let newPage = fresh w1;
              w2 = w1\<lparr>fresh := newPage + 1\<rparr>;
              (pid, w3) = (case a_id input of Some i \<Rightarrow> (i, w2) | None \<Rightarrow> nextPageId w2)
          in (Done, w3\<lparr>pages := map_set pid newPage (pages w3), page := Some newPage,
                       currentPageId := Some pid\<rparr>)))"

text \<open>
  \<^verbatim>\<open>
  async page_switch(input) {
    const target = state.pages.get(input.id);
    if (!target) { throw new McpError(ErrorCode.InvalidRequest, `... pageId: ${input.id}`); }
    state.page = target; state.currentPageId = input.id;
    return ...;
  }
  \<close>
  The schema requires \<^verbatim>\<open>id\<close>, so the handler is never reached without one; the model
  gives that case the lookup failure the code would have.
\<close>

definition page_switch :: "arguments \<Rightarrow> world \<Rightarrow> outcome \<times> world" where
  "page_switch input w =
     (case a_id input of None \<Rightarrow> (Throws (msg_unknown_page ''undefined''), w)
      | Some pid \<Rightarrow>
          (case map_of (pages w) pid of None \<Rightarrow> (Throws (msg_unknown_page pid), w)
           | Some target \<Rightarrow> (Done, w\<lparr>page := Some target, currentPageId := Some pid\<rparr>)))"

text \<open>
  \<^verbatim>\<open>
  async page_close(input) {
    const id = input.id ?? state.currentPageId;
    if (!id) { throw new McpError(ErrorCode.InvalidRequest, "...") }
    const p = state.pages.get(id);
    if (!p) { throw new McpError(ErrorCode.InvalidRequest, `... pageId: ${id}`); }
    await p.close();
    state.pages.delete(id);
    if (state.currentPageId === id) {
      const next = state.pages.keys().next().value as string | undefined;
      state.currentPageId = next ?? null;
      state.page = next ? state.pages.get(next)! : null;
    }
    return ...;
  }
  \<close>
  \<^verbatim>\<open>!id\<close> and \<^verbatim>\<open>next ? ... : null\<close> test truthiness: the empty string counts
  as absent there, while \<^verbatim>\<open>??\<close> only replaces \<^verbatim>\<open>null\<close> and
  \<^verbatim>\<open>undefined\<close>. \<open>delete_page\<close> is the part after \<^verbatim>\<open>await p.close()\<close>.
\<close>

definition delete_page :: "string \<Rightarrow> world \<Rightarrow> world" where
  "delete_page pid w =
     (let w1 = w\<lparr>pages := map_delete pid (pages w)\<rparr> in
      if currentPageId w1 = Some pid then
        (let next = first_key (pages w1) in
         w1\<lparr>currentPageId := next,
            page := (case next of None \<Rightarrow> None
                     | Some k \<Rightarrow> if k = [] then None else map_of (pages w1) k)\<rparr>)
      else w1)"

definition page_close :: "arguments \<Rightarrow> world \<Rightarrow> outcome \<times> world" where
  "page_close input w =
     (case (case a_id input of Some i \<Rightarrow> Some i | None \<Rightarrow> currentPageId w) of
        None \<Rightarrow> (Throws msg_no_page_id, w)
      | Some pid \<Rightarrow>
          if pid = [] then (Throws msg_no_page_id, w)
          else (case map_of (pages w) pid of None \<Rightarrow> (Throws (msg_unknown_page pid), w)
            | Some p \<Rightarrow> and_then (driver w) (\<lambda>w1. (Done, delete_page pid w1))))"

subsection \<open>The tool table and the dispatch of a step\<close>

text \<open>
  \<^verbatim>\<open>const tools = { "browser_open": {...}, ... } as const;\<close> and
  \<^verbatim>\<open>const handlers: Record<string, ...> = { async browser_open(input) {...}, ... };\<close>
  have the same twenty-three keys. Both are plain objects, so a lookup by a name such as
  \<^verbatim>\<open>"toString"\<close> finds a member of \<^verbatim>\<open>Object.prototype\<close>: a value that is
  truthy and has no \<^verbatim>\<open>inputSchema\<close>. All of these members are functions but
  \<^verbatim>\<open>__proto__\<close>, which is an object.
\<close>

definition state_tools :: "string list" where
  "state_tools = [''browser_open'', ''browser_close'', ''page_new'', ''page_switch'', ''page_close'']"

definition page_tools :: "string list" where
  "page_tools = [''page_goto'', ''page_click'', ''page_type'', ''page_fill'', ''page_assert'',
     ''page_screenshot'', ''page_eval'', ''page_wait_for'', ''page_title_get'', ''page_url_get'',
     ''page_text_get'', ''page_attribute_get'', ''page_viewport'', ''tracing_start'', ''tracing_stop'']"

definition run_tools :: "string list" where
  "run_tools = [''test_plan_run'', ''test_plan_run_file'', ''test_suite_run'']"

definition object_prototype_functions :: "string list" where
  "object_prototype_functions = [''constructor'', ''__defineGetter__'', ''__defineSetter__'',
     ''hasOwnProperty'', ''__lookupGetter__'', ''__lookupSetter__'', ''isPrototypeOf'',
     ''propertyIsEnumerable'', ''toString'', ''valueOf'', ''toLocaleString'']"

datatype lookup = Tool | Inherited | Missing

definition tools_lookup :: "string \<Rightarrow> lookup" where
  "tools_lookup name =
     (if name \<in> set (state_tools @ page_tools @ run_tools) then Tool
      else if name \<in> set (''__proto__'' # object_prototype_functions) then Inherited
      else Missing)"

text \<open>\<^verbatim>\<open>typeof handlers[step.name] === "function"\<close>\<close>

definition handler_is_function :: "string \<Rightarrow> bool" where
  "handler_is_function name \<longleftrightarrow>
     name \<in> set (state_tools @ page_tools @ run_tools) \<or> name \<in> set object_prototype_functions"

text \<open>
  \<^verbatim>\<open>tool.inputSchema.parse(step.arguments ?? {})\<close>. A zod object schema keeps the
  properties it declares and fails when a required one is missing. The schemas of the
  five state tools are modelled; of these only \<^verbatim>\<open>page_switch\<close> requires a property.
  Whether the arguments of another tool satisfy its schema is an outcome of the
  environment (their values are not modelled).
\<close>

definition parse_arguments :: "string \<Rightarrow> arguments \<Rightarrow> world \<Rightarrow> (string + arguments) \<times> world" where
  "parse_arguments name a w =
     (if name = ''browser_open'' then (Inr (a\<lparr>a_id := None\<rparr>), w)
      else if name = ''browser_close'' then (Inr no_arguments, w)
      else if name = ''page_new'' \<or> name = ''page_close'' then (Inr (no_arguments\<lparr>a_id := a_id a\<rparr>), w)
      else if name = ''page_switch'' then
        (case a_id a of None \<Rightarrow> (Inl msg_id_required, w)
         | Some i \<Rightarrow> (Inr (no_arguments\<lparr>a_id := Some i\<rparr>), w))
      else (case driver w of (Done, w1) \<Rightarrow> (Inr a, w1) | (Throws m, w1) \<Rightarrow> (Inl m, w1)))"

text \<open>
  Every other page and tracing handler starts with \<^verbatim>\<open>const page = ensurePage();\<close>,
  then talks to Playwright and assigns nothing in \<^verbatim>\<open>state\<close>: it returns or throws
  as the environment decides.
\<close>

definition page_tool :: "world \<Rightarrow> outcome \<times> world" where
  "page_tool w = (case ensurePage w of Inl m \<Rightarrow> (Throws m, w) | Inr p \<Rightarrow> driver w)"

text \<open>
  \<^verbatim>\<open>handlers[step.name](args)\<close>. A step may name one of the three run tools
  (\<^verbatim>\<open>test_plan_run\<close>, \<^verbatim>\<open>test_plan_run_file\<close>, \<^verbatim>\<open>test_suite_run\<close>), which
  starts a run inside the run. The plan or suite of such a step is not part of
  \<^typ>\<open>arguments\<close>; what the inner run does to the world, and whether it throws, is the
  parameter \<open>N\<close> of everything below. Every theorem about a run holds for every \<open>N\<close>.
  Like a call to the environment, an inner run is taken to return or to throw.
\<close>

type_synonym nested = "string \<Rightarrow> arguments \<Rightarrow> world \<Rightarrow> outcome \<times> world"

definition handlers :: "nested \<Rightarrow> string \<Rightarrow> arguments \<Rightarrow> world \<Rightarrow> outcome \<times> world" where
  "handlers N name input w =
     (if name = ''browser_open'' then browser_open input w
      else if name = ''browser_close'' then browser_close w
      else if name = ''page_new'' then page_new input w
      else if name = ''page_switch'' then page_switch input w
      else if name = ''page_close'' then page_close input w
      else if name \<in> set page_tools then page_tool w
      else N name input w)"

text \<open>An inner run that does nothing, for the examples (none of them nests a run).\<close>

definition no_nested :: nested where
  "no_nested name input w = (Done, w)"

text \<open>
  The three statements both runners make for a step inside their \<^verbatim>\<open>try\<close>:
  \<^verbatim>\<open>
  const tool = (tools as any)[step.name];
  ...
  const args = tool.inputSchema.parse(step.arguments ?? {});
  await handlers[step.name](args);
  \<close>
  Both runners deal with a name that finds nothing before they get here; a name that finds
  an inherited member fails in \<^verbatim>\<open>tool.inputSchema.parse\<close>.
\<close>

definition parse_and_call :: "nested \<Rightarrow> step \<Rightarrow> world \<Rightarrow> outcome \<times> world" where
  "parse_and_call N st w =
     (case tools_lookup (s_name st) of
        Tool \<Rightarrow>
          (case parse_arguments (s_name st) (s_arguments st) w of
             (Inl m, w1) \<Rightarrow> (Throws m, w1)
           | (Inr args, w1) \<Rightarrow> handlers N (s_name st) args w1)
      | _ \<Rightarrow> (Throws msg_no_schema, w))"

section \<open>The plan executor\<close>

text \<open>
  \<^verbatim>\<open>
  async test_plan_run(input) {
    const results: Array<{ step: number; name: string; ok: boolean; message: string }> = [];
    for (let i = 0; i < input.steps.length; i++) {
      const step = input.steps[i];
      const stepTool = (tools as any)[step.name];
      if (!stepTool || typeof handlers[step.name] !== "function") {
        results.push({ step: i + 1, name: step.name, ok: false, message: "..." });
        if (!input.continueOnError) break;
        continue;
      }
      try {
        const stepArgs = stepTool.inputSchema.parse(step.arguments ?? {});
        await handlers[step.name](stepArgs);
        results.push({ step: i + 1, name: step.name, ok: true, message: "ok" });
      } catch (e: any) {
        results.push({ step: i + 1, name: step.name, ok: false, message: e?.message ?? String(e) });
        if (!input.continueOnError) break;
      }
    }
    return { content: [{ type: "text", text: JSON.stringify(results) }] };
  }
  \<close>
  \<open>plan_step\<close> is the body of the loop up to the \<^verbatim>\<open>push\<close>: whether the step
  passed, and the message. \<open>plan_loop\<close> is the loop from index \<open>i\<close> on; its result is the
  array \<^verbatim>\<open>results\<close> (the handler returns its JSON text) and the world it leaves.
\<close>

record plan =
  p_steps :: "step list"
  p_continueOnError :: bool

record plan_entry =
  pe_step :: nat
  pe_name :: string
  pe_ok :: bool
  pe_message :: string

definition plan_step :: "nested \<Rightarrow> step \<Rightarrow> world \<Rightarrow> (bool \<times> string) \<times> world" where
  "plan_step N st w =
     (if tools_lookup (s_name st) = Missing \<or> \<not> handler_is_function (s_name st)
      then ((False, msg_unknown_tool), w)
      else (case parse_and_call N st w of
              (Done, w1) \<Rightarrow> ((True, ''ok''), w1)
            | (Throws m, w1) \<Rightarrow> ((False, m), w1)))"

fun plan_loop :: "nested \<Rightarrow> bool \<Rightarrow> nat \<Rightarrow> step list \<Rightarrow> plan_entry list \<Rightarrow> world \<Rightarrow> plan_entry list \<times> world" where
  "plan_loop N coe i [] rs w = (rs, w)"
| "plan_loop N coe i (st # sts) rs w =
     (case plan_step N st w of
        ((ok, m), w1) \<Rightarrow>
          (let rs1 = rs @ [\<lparr>pe_step = i + 1, pe_name = s_name st, pe_ok = ok, pe_message = m\<rparr>]
           in if \<not> ok \<and> \<not> coe then (rs1, w1)
              else plan_loop N coe (i + 1) sts rs1 w1))"

definition test_plan_run :: "nested \<Rightarrow> plan \<Rightarrow> world \<Rightarrow> plan_entry list \<times> world" where
  "test_plan_run N input w = plan_loop N (p_continueOnError input) 0 (p_steps input) [] w"

section \<open>The suite executor\<close>

text \<open>
  The input of \<^verbatim>\<open>test_suite_run\<close>. An optional array that the code only tests with
  \<^verbatim>\<open>?.length\<close> is a list (absent is empty); an optional boolean that the code only
  tests for truthiness is a \<^typ>\<open>bool\<close> (absent is false). \<^verbatim>\<open>autoBrowser\<close>,
  \<^verbatim>\<open>retries\<close> and \<^verbatim>\<open>artifactsDir\<close> are read with \<^verbatim>\<open>??\<close> and stay
  optional. \<^verbatim>\<open>retries\<close> is any integer here, negative ones included; the schema
  would also let a fraction through, which the model leaves out.
\<close>

record test =
  t_name :: string
  t_steps :: "step list"

record suite =
  su_setup :: "step list"
  su_tests :: "test list"
  su_teardown :: "step list"
  su_continueOnError :: bool
  su_retries :: "int option"
  su_junit :: bool
  su_junitPath :: "string option"
  su_autoBrowser :: "bool option"
  su_headless :: "bool option"
  su_artifactsDir :: "string option"
  su_onFailureScreenshot :: bool
  su_traceOnFailure :: bool

datatype phase = SetupPhase | TeardownPhase | TestPhase

text \<open>
  \<^verbatim>\<open>(phase === "test" ? results.tests : (phase === "setup" ? results.setup : results.teardown)).push(...)\<close>
\<close>

definition push_entry :: "phase \<Rightarrow> entry \<Rightarrow> results \<Rightarrow> results" where
  "push_entry ph e r =
     (case ph of TestPhase \<Rightarrow> r\<lparr>r_tests := r_tests r @ [e]\<rparr>
      | SetupPhase \<Rightarrow> r\<lparr>r_setup := r_setup r @ [e]\<rparr>
      | TeardownPhase \<Rightarrow> r\<lparr>r_teardown := r_teardown r @ [e]\<rparr>)"

text \<open>
  \<^verbatim>\<open>
  const runSteps = async (steps: any[], phase: "setup" | "teardown" | "test") => {
    for (let i = 0; i < steps.length; i++) {
      const step = steps[i];
      try {
        const tool = (tools as any)[step.name];
        if (!tool) throw new Error("...");
        const args = tool.inputSchema.parse(step.arguments ?? {});
        await handlers[step.name](args);
        (...).push({ name: step.name, ok: true });
      } catch (e: any) {
        (...).push({ name: step.name, ok: false, message: e?.message ?? String(e) });
        if (!input.continueOnError) throw e;
      }
    }
  };
  \<close>
  The closure reads \<^verbatim>\<open>input.continueOnError\<close> of the suite for every phase. The
  result is the error thrown (if any), \<^verbatim>\<open>results\<close> and the world.
\<close>

definition suite_step :: "nested \<Rightarrow> step \<Rightarrow> world \<Rightarrow> outcome \<times> world" where
  "suite_step N st w =
     (if tools_lookup (s_name st) = Missing then (Throws msg_unknown_tool, w)
      else parse_and_call N st w)"

fun runSteps :: "nested \<Rightarrow> suite \<Rightarrow> step list \<Rightarrow> phase \<Rightarrow> results \<Rightarrow> world \<Rightarrow> string option \<times> results \<times> world" where
  "runSteps N input [] ph r w = (None, r, w)"
| "runSteps N input (st # sts) ph r w =
     (case suite_step N st w of
        (Done, w1) \<Rightarrow> runSteps N input sts ph (push_entry ph (StepEntry (s_name st) True None) r) w1
      | (Throws m, w1) \<Rightarrow>
          (let r1 = push_entry ph (StepEntry (s_name st) False (Some m)) r
           in if \<not> su_continueOnError input then (Some m, r1, w1)
              else runSteps N input sts ph r1 w1))"

subsection \<open>One test: the retry loop\<close>

text \<open>
  \<^verbatim>\<open>
  for (const test of input.tests) {
    let attempt = 0; let ok = false; let lastErr: any = null;
    const testArtifacts: string[] = [];
    while (attempt <= (input.retries ?? 0)) {
      try {
        if (input.traceOnFailure) {
          const page = ensurePage();
          await page.context().tracing.start({ screenshots: true, snapshots: true, sources: false });
        }
        await runSteps(test.steps, "test");
        ok = true;
        if (input.traceOnFailure) {
          const page = ensurePage();
          await page.context().tracing.stop();
        }
        break;
      } catch (e: any) {
        lastErr = e; attempt++;
        if (input.onFailureScreenshot) {
          try {
            const page = ensurePage();
            const file = path.join(artifactsDir, `${sanitizeFilename(test.name)}_attempt${attempt}.png`);
            await page.screenshot({ path: file, fullPage: true });
            testArtifacts.push(file);
          } catch {/* ignore */}
        }
        if (input.traceOnFailure) {
          try {
            const page = ensurePage();
            const file = path.join(artifactsDir, `${sanitizeFilename(test.name)}_attempt${attempt}_trace.zip`);
            await page.context().tracing.stop({ path: file });
            testArtifacts.push(file);
          } catch {/* ignore */}
        }
        if (attempt > (input.retries ?? 0)) break;
      }
    }
    results.tests.push({ name: test.name, ok, error: ok ? undefined : (lastErr?.message ?? String(lastErr)), artifacts: testArtifacts });
    if (!ok && !input.continueOnError) break;
  }
  \<close>
\<close>

definition retries_of :: "suite \<Rightarrow> int" where
  "retries_of input = (case su_retries input of None \<Rightarrow> 0 | Some n \<Rightarrow> n)"

text \<open>\<^verbatim>\<open>path.join\<close>, without the normalisation Node applies to its result.\<close>

definition path_join :: "string \<Rightarrow> string \<Rightarrow> string" where
  "path_join dir file = dir @ ''/'' @ file"

text \<open>
  \<^verbatim>\<open>if (input.traceOnFailure) { const page = ensurePage(); await page.context().tracing.X(); }\<close>
  for \<open>X\<close> either \<open>start\<close> or \<open>stop\<close>.
\<close>

definition trace_call :: "suite \<Rightarrow> world \<Rightarrow> outcome \<times> world" where
  "trace_call input w =
     (if su_traceOnFailure input
      then (case ensurePage w of Inl m \<Rightarrow> (Throws m, w) | Inr p \<Rightarrow> driver w)
      else (Done, w))"

text \<open>
  The \<^verbatim>\<open>try\<close> block of one attempt: the error it throws (if any), whether
  \<^verbatim>\<open>ok = true\<close> was executed, \<^verbatim>\<open>results\<close> and the world.
\<close>

definition attempt_body :: "nested \<Rightarrow> suite \<Rightarrow> test \<Rightarrow> results \<Rightarrow> world \<Rightarrow> string option \<times> bool \<times> results \<times> world" where
  "attempt_body N input t r w =
     (case trace_call input w of
        (Throws m, w1) \<Rightarrow> (Some m, False, r, w1)
      | (Done, w1) \<Rightarrow>
          (case runSteps N input (t_steps t) TestPhase r w1 of
             (Some m, r2, w2) \<Rightarrow> (Some m, False, r2, w2)
           | (None, r2, w2) \<Rightarrow>
               (case trace_call input w2 of
                  (Throws m, w3) \<Rightarrow> (Some m, True, r2, w3)
                | (Done, w3) \<Rightarrow> (None, True, r2, w3))))"

text \<open>
  One capture of the \<^verbatim>\<open>catch\<close> block, inside its own \<^verbatim>\<open>try { ... } catch {}\<close>:
  the file is pushed only when \<^verbatim>\<open>ensurePage\<close> and the driver call both succeed.
\<close>

definition capture :: "string \<Rightarrow> string list \<Rightarrow> world \<Rightarrow> string list \<times> world" where
  "capture file arts w =
     (case ensurePage w of Inl m \<Rightarrow> (arts, w)
      | Inr p \<Rightarrow> (case driver w of (Done, w1) \<Rightarrow> (arts @ [file], w1) | (Throws m, w1) \<Rightarrow> (arts, w1)))"

definition artifact_file :: "string \<Rightarrow> test \<Rightarrow> nat \<Rightarrow> string \<Rightarrow> string" where
  "artifact_file dir t attempt suffix =
     path_join dir (sanitizeFilename (t_name t) @ ''_attempt'' @ string_of_nat attempt @ suffix)"

text \<open>The captures of the \<^verbatim>\<open>catch\<close> block; \<open>attempt\<close> is the counter after \<^verbatim>\<open>attempt++\<close>.\<close>

definition on_failure :: "suite \<Rightarrow> string \<Rightarrow> test \<Rightarrow> nat \<Rightarrow> string list \<Rightarrow> world \<Rightarrow> string list \<times> world" where
  "on_failure input dir t attempt arts w =
     (case (if su_onFailureScreenshot input then capture (artifact_file dir t attempt ''.png'') arts w
            else (arts, w)) of
        (arts1, w1) \<Rightarrow>
          (if su_traceOnFailure input then capture (artifact_file dir t attempt ''_trace.zip'') arts1 w1
           else (arts1, w1)))"

text \<open>
  The \<^verbatim>\<open>while\<close> loop, from the values its variables have at the top of an
  iteration to the values they have when it is left:
  \<open>(attempt, ok, lastErr, testArtifacts, results, world)\<close>.
\<close>

function attempts :: "nested \<Rightarrow> suite \<Rightarrow> string \<Rightarrow> test \<Rightarrow> nat \<Rightarrow> bool \<Rightarrow> string option \<Rightarrow> string list
    \<Rightarrow> results \<Rightarrow> world \<Rightarrow> nat \<times> bool \<times> string option \<times> string list \<times> results \<times> world" where
  "attempts N input dir t attempt ok lastErr arts r w =
     (if int attempt \<le> retries_of input then
        (case attempt_body N input t r w of
           (None, ok1, r1, w1) \<Rightarrow> (attempt, True, lastErr, arts, r1, w1)
         | (Some e, ok1, r1, w1) \<Rightarrow>
             (case on_failure input dir t (attempt + 1) arts w1 of
                (arts1, w2) \<Rightarrow>
                  if int (attempt + 1) > retries_of input
                  then (attempt + 1, ok \<or> ok1, Some e, arts1, r1, w2)
                  else attempts N input dir t (attempt + 1) (ok \<or> ok1) (Some e) arts1 r1 w2))
      else (attempt, ok, lastErr, arts, r, w))"
  by pat_completeness auto
termination
  by (relation "measure (\<lambda>(N, input, dir, t, attempt, rest). nat (retries_of input + 1 - int attempt))") auto

declare attempts.simps [simp del]

text \<open>\<^verbatim>\<open>lastErr?.message ?? String(lastErr)\<close>; \<^verbatim>\<open>lastErr\<close> starts as \<^verbatim>\<open>null\<close>.\<close>

definition error_text :: "string option \<Rightarrow> string" where
  "error_text lastErr = (case lastErr of None \<Rightarrow> ''null'' | Some m \<Rightarrow> m)"

fun run_tests :: "nested \<Rightarrow> suite \<Rightarrow> string \<Rightarrow> test list \<Rightarrow> results \<Rightarrow> world \<Rightarrow> results \<times> world" where
  "run_tests N input dir [] r w = (r, w)"
| "run_tests N input dir (t # ts) r w =
     (case attempts N input dir t 0 False None [] r w of
        (attempt, ok, lastErr, arts, r1, w1) \<Rightarrow>
          (let r2 = r1\<lparr>r_tests := r_tests r1 @
                      [TestEntry (t_name t) ok (if ok then None else Some (error_text lastErr)) arts]\<rparr>
           in if \<not> ok \<and> \<not> su_continueOnError input then (r2, w1)
              else run_tests N input dir ts r2 w1))"

subsection \<open>The handler\<close>

text \<open>
  \<^verbatim>\<open>
  async test_suite_run(input) {
    const results: any = { setup: [], tests: [], teardown: [], junit: null };
    const ensureDir = async (dir: string) => { try { await fs.mkdir(dir, { recursive: true }); } catch { /* noop */ } };
    const runSteps = ...;
    const shouldAutoBrowser = input.autoBrowser ?? true;
    if (shouldAutoBrowser && !state.browser) {
      await handlers.browser_open({ headless: input.headless });
    }
    if (input.setup?.length) await runSteps(input.setup, "setup");
    const artifactsDir = input.artifactsDir ?? path.join(process.cwd(), `artifacts_${Date.now()}`);
    if (input.onFailureScreenshot || input.traceOnFailure || input.junitPath || input.artifactsDir) {
      await ensureDir(artifactsDir);
    }
    for (const test of input.tests) { ... }
    if (input.teardown?.length) await runSteps(input.teardown, "teardown");
    if (input.junit) {
      results.junit = buildJUnit(results);
      if (input.junitPath) { await fs.writeFile(input.junitPath, results.junit, "utf-8"); }
    }
    if (shouldAutoBrowser) {
      try { await handlers.browser_close({}); } catch {/* ignore */}
    }
    return { content: [{ type: "text", text: JSON.stringify(results) }] };
  }
  \<close>
  The model returns the error the call throws (\<open>None\<close> when it returns), the object
  \<^verbatim>\<open>results\<close> as it stands when the call ends (the caller receives its JSON text when
  the call returns, and only the error when it throws) and the world.
\<close>

definition shouldAutoBrowser :: "suite \<Rightarrow> bool" where
  "shouldAutoBrowser input = (case su_autoBrowser input of None \<Rightarrow> True | Some b \<Rightarrow> b)"

definition truthy :: "string option \<Rightarrow> bool" where
  "truthy s = (case s of None \<Rightarrow> False | Some x \<Rightarrow> x \<noteq> [])"

definition suite_acquire :: "suite \<Rightarrow> world \<Rightarrow> outcome \<times> world" where
  "suite_acquire input w =
     (if shouldAutoBrowser input \<and> browser w = None
      then browser_open (no_arguments\<lparr>a_headless := su_headless input\<rparr>) w
      else (Done, w))"

definition suite_setup :: "nested \<Rightarrow> suite \<Rightarrow> results \<Rightarrow> world \<Rightarrow> string option \<times> results \<times> world" where
  "suite_setup N input r w =
     (if su_setup input \<noteq> [] then runSteps N input (su_setup input) SetupPhase r w else (None, r, w))"

definition artifactsDir :: "suite \<Rightarrow> world \<Rightarrow> string" where
  "artifactsDir input w =
     (case su_artifactsDir input of Some d \<Rightarrow> d
      | None \<Rightarrow> path_join (cwd w) (''artifacts_'' @ string_of_nat (now w)))"

definition ensureDir :: "suite \<Rightarrow> world \<Rightarrow> world" where
  "ensureDir input w =
     (if su_onFailureScreenshot input \<or> su_traceOnFailure input \<or> truthy (su_junitPath input)
         \<or> truthy (su_artifactsDir input)
      then snd (driver w) else w)"

definition suite_teardown :: "nested \<Rightarrow> suite \<Rightarrow> results \<Rightarrow> world \<Rightarrow> string option \<times> results \<times> world" where
  "suite_teardown N input r w =
     (if su_teardown input \<noteq> [] then runSteps N input (su_teardown input) TeardownPhase r w else (None, r, w))"

definition suite_report :: "suite \<Rightarrow> results \<Rightarrow> world \<Rightarrow> string option \<times> results \<times> world" where
  "suite_report input r w =
     (if su_junit input then
        (let r1 = r\<lparr>r_junit := Some (buildJUnit r)\<rparr>
         in if truthy (su_junitPath input)
            then (case driver w of (Done, w1) \<Rightarrow> (None, r1, w1) | (Throws m, w1) \<Rightarrow> (Some m, r1, w1))
            else (None, r1, w))
      else (None, r, w))"

definition suite_release :: "suite \<Rightarrow> world \<Rightarrow> world" where
  "suite_release input w = (if shouldAutoBrowser input then snd (browser_close w) else w)"

text \<open>
  \<open>suite_body\<close> is the handler up to the report (the lines before
  \<^verbatim>\<open>if (shouldAutoBrowser) { try { await handlers.browser_close({}); } catch {} }\<close>);
  \<open>test_suite_run\<close> adds the release, which is reached only when nothing was thrown.
\<close>

definition suite_body :: "nested \<Rightarrow> suite \<Rightarrow> world \<Rightarrow> string option \<times> results \<times> world" where
  "suite_body N input w =
     (case suite_acquire input w of
        (Throws m, w1) \<Rightarrow> (Some m, empty_results, w1)
      | (Done, w1) \<Rightarrow>
          (case suite_setup N input empty_results w1 of
             (Some m, r2, w2) \<Rightarrow> (Some m, r2, w2)
           | (None, r2, w2) \<Rightarrow>
               (case run_tests N input (artifactsDir input w2) (su_tests input) r2 (ensureDir input w2) of
                  (r3, w3) \<Rightarrow>
                    (case suite_teardown N input r3 w3 of
                       (Some m, r4, w4) \<Rightarrow> (Some m, r4, w4)
                     | (None, r4, w4) \<Rightarrow> suite_report input r4 w4))))"

definition test_suite_run :: "nested \<Rightarrow> suite \<Rightarrow> world \<Rightarrow> string option \<times> results \<times> world" where
  "test_suite_run N input w =
     (case suite_body N input w of
        (Some m, r, w5) \<Rightarrow> (Some m, r, w5)
      | (None, r, w5) \<Rightarrow> (None, r, suite_release input w5))"

section \<open>Notions used to state the properties\<close>

text \<open>
  The 1-based index of the first step of a plan that fails when the steps are executed
  one after another from world \<open>w\<close>, each in the world its predecessors left.
\<close>

fun first_failing_step :: "nested \<Rightarrow> step list \<Rightarrow> world \<Rightarrow> nat option" where
  "first_failing_step N [] w = None"
| "first_failing_step N (st # sts) w =
     (case plan_step N st w of
        ((ok, m), w1) \<Rightarrow> if ok then map_option Suc (first_failing_step N sts w1) else Some 1)"

text \<open>
  The page table is consistent: a current page id is a key of \<open>pages\<close> and \<open>page\<close> is the
  page stored under it; without a current page id there is no current page.
\<close>

definition page_table_ok :: "world \<Rightarrow> bool" where
  "page_table_ok w =
     (case currentPageId w of
        None \<Rightarrow> page w = None
      | Some k \<Rightarrow> (case map_of (pages w) k of None \<Rightarrow> False | Some p \<Rightarrow> page w = Some p))"

text \<open>The entity that stands for one character in escaped text.\<close>

definition xml_entity :: "char \<Rightarrow> string" where
  "xml_entity c =
     (if c = CHR ''&'' then ''&amp;'' else if c = CHR ''<'' then ''&lt;''
      else if c = CHR ''>'' then ''&gt;'' else if c = dq then ''&quot;''
      else if c = sq then ''&apos;'' else [c])"

text \<open>
  \<open>entity_text s\<close> is the text \<open>s\<close> with every character replaced by its entity: what an
  escaped value reads in the report.
\<close>

definition entity_text :: "string \<Rightarrow> string" where
  "entity_text s = concat (map xml_entity s)"

text \<open>
  \<open>starts_with p s\<close>: the text \<open>s\<close> begins with \<open>p\<close>. An ampersand is escaped when one of
  the five entity names follows it, so that it opens an entity;
  \<open>ampersands_escaped s\<close> holds when every ampersand of \<open>s\<close> is.
\<close>

fun starts_with :: "string \<Rightarrow> string \<Rightarrow> bool" where
  "starts_with [] s = True"
| "starts_with (p # ps) [] = False"
| "starts_with (p # ps) (c # cs) = (c = p \<and> starts_with ps cs)"

definition entity_names :: "string list" where
  "entity_names = [''amp;'', ''lt;'', ''gt;'', ''quot;'', ''apos;'']"

fun ampersands_escaped :: "string \<Rightarrow> bool" where
  "ampersands_escaped [] = True"
| "ampersands_escaped (c # cs) =
     ((if c = CHR ''&'' then list_ex (\<lambda>e. starts_with e cs) entity_names else True)
      \<and> ampersands_escaped cs)"

definition failures :: "entry list \<Rightarrow> nat" where
  "failures ts = length (filter (\<lambda>t. \<not> e_ok t) ts)"

text \<open>\<open>append_log ph new r\<close>: the result \<open>r\<close> with the entries \<open>new\<close> pushed on the log of phase \<open>ph\<close>.\<close>

definition append_log :: "phase \<Rightarrow> entry list \<Rightarrow> results \<Rightarrow> results" where
  "append_log ph new r =
     (case ph of TestPhase \<Rightarrow> r\<lparr>r_tests := r_tests r @ new\<rparr>
      | SetupPhase \<Rightarrow> r\<lparr>r_setup := r_setup r @ new\<rparr>
      | TeardownPhase \<Rightarrow> r\<lparr>r_teardown := r_teardown r @ new\<rparr>)"

text \<open>
  \<open>ran_prefix sts log\<close>: the log holds, in order and once each, the steps of \<open>sts\<close> up to
  some step, and nothing else.
\<close>

definition ran_prefix :: "step list \<Rightarrow> entry list \<Rightarrow> bool" where
  "ran_prefix sts log \<longleftrightarrow> map e_name log = map s_name (take (length log) sts) \<and> length log \<le> length sts"

section \<open>Example inputs\<close>

text \<open>A step without arguments, and a step whose only argument is an \<^verbatim>\<open>id\<close>.\<close>

definition step_named :: "string \<Rightarrow> step" where
  "step_named n = \<lparr>s_name = n, s_arguments = no_arguments\<rparr>"

definition step_with_id :: "string \<Rightarrow> string \<Rightarrow> step" where
  "step_with_id n i = \<lparr>s_name = n, s_arguments = no_arguments\<lparr>a_id := Some i\<rparr>\<rparr>"

text \<open>The suite with every optional property absent and no steps.\<close>

definition plain_suite :: suite where
  "plain_suite = \<lparr>su_setup = [], su_tests = [], su_teardown = [], su_continueOnError = False,
     su_retries = None, su_junit = False, su_junitPath = None, su_autoBrowser = None,
     su_headless = None, su_artifactsDir = None, su_onFailureScreenshot = False,
     su_traceOnFailure = False\<rparr>"

text \<open>
  A world in which a browser is already open (the initial one after
  \<^verbatim>\<open>browser_open\<close>), and the same world with a browser that refuses to close.
\<close>

definition open_world :: world where
  "open_world = snd (browser_open no_arguments initial_world)"

definition stuck_world :: world where
  "stuck_world = open_world\<lparr>script := [Throws ''close failed'']\<rparr>"

text \<open>
  A world with two tabs, the second opened under the empty id, and the first one current:
  \<^verbatim>\<open>browser_open\<close>, \<^verbatim>\<open>page_new {id: ""}\<close>, \<^verbatim>\<open>page_switch {id: "page1"}\<close>.
\<close>

definition empty_id_world :: world where
  "empty_id_world =
     snd (parse_and_call no_nested (step_with_id ''page_switch'' ''page1'')
       (snd (parse_and_call no_nested (step_with_id ''page_new'' [])
         (snd (parse_and_call no_nested (step_named ''browser_open'') initial_world)))))"

text \<open>
  Two plans of three steps in which \<^verbatim>\<open>nope\<close> names no tool: it is the second step
  of the plan that stops on errors and the first step of the plan that continues.
\<close>

definition stop_plan :: plan where
  "stop_plan = \<lparr>p_steps = [step_named ''browser_close'', step_named ''nope'', step_named ''page_new''],
     p_continueOnError = False\<rparr>"

definition continue_plan :: plan where
  "continue_plan = \<lparr>p_steps = [step_named ''nope'', step_named ''browser_close'', step_named ''page_new''],
     p_continueOnError = True\<rparr>"

text \<open>
  A result whose names and messages hold every reserved character: a passed test, a failed
  test whose message already holds the text of an entity, and the record of a failed step.
\<close>

definition mixed_results :: results where
  "mixed_results = empty_results\<lparr>r_tests :=
     [TestEntry ''a<b'' True None [],
      TestEntry ''Q&A'' False (Some (''it'' @ [sq] @ ''s '' @ [dq] @ ''bad'' @ [dq] @ '' &lt;'')) [],
      StepEntry ''x>y'' False (Some ''no'')]\<rparr>"

text \<open>A suite that asks for a headless browser.\<close>

definition headless_suite :: suite where
  "headless_suite = plain_suite\<lparr>su_headless := Some True\<rparr>"

text \<open>
  A suite whose setup step names no tool, and a suite whose setup passes and whose only
  test fails. The teardown of both opens a tab.
\<close>

definition setup_fails_suite :: suite where
  "setup_fails_suite = plain_suite\<lparr>su_setup := [step_named ''nope''],
     su_tests := [\<lparr>t_name = ''T'', t_steps = [step_named ''page_new'']\<rparr>],
     su_teardown := [step_named ''page_new'']\<rparr>"

definition tests_fail_suite :: suite where
  "tests_fail_suite = plain_suite\<lparr>su_setup := [step_named ''page_new''],
     su_tests := [\<lparr>t_name = ''T'', t_steps = [step_named ''nope'']\<rparr>],
     su_teardown := [step_named ''page_new'', step_named ''browser_close'']\<rparr>"

text \<open>A suite whose first teardown step names no tool.\<close>

definition teardown_fails_suite :: suite where
  "teardown_fails_suite = plain_suite\<lparr>su_teardown := [step_named ''nope'', step_named ''page_new'']\<rparr>"

text \<open>
  One test whose only step names no tool, under \<^verbatim>\<open>continueOnError: true\<close> and
  \<^verbatim>\<open>retries: 1\<close>.
\<close>

definition lenient_suite :: suite where
  "lenient_suite = plain_suite\<lparr>su_autoBrowser := Some False, su_continueOnError := True,
     su_retries := Some 1,
     su_tests := [\<lparr>t_name = ''T'', t_steps = [step_named ''nope'']\<rparr>]\<rparr>"

text \<open>A passing and a failing test of one step each, with the report requested.\<close>

definition two_tests_suite :: suite where
  "two_tests_suite = plain_suite\<lparr>su_autoBrowser := Some False, su_junit := True,
     su_tests := [\<lparr>t_name = ''A'', t_steps = [step_named ''browser_close'']\<rparr>,
                  \<lparr>t_name = ''B'', t_steps = [step_named ''nope'']\<rparr>]\<rparr>"

text \<open>A test that closes the browser itself, with tracing on failure and one retry.\<close>

definition closing_test :: test where
  "closing_test = \<lparr>t_name = ''T'', t_steps = [step_named ''browser_close'']\<rparr>"

definition traced_suite :: suite where
  "traced_suite = plain_suite\<lparr>su_autoBrowser := Some False, su_retries := Some 1,
     su_traceOnFailure := True, su_tests := [closing_test]\<rparr>"

text \<open>One failing test named Login, with screenshots on failure and no retry.\<close>

definition login_suite :: suite where
  "login_suite = plain_suite\<lparr>su_retries := Some 0, su_onFailureScreenshot := True,
     su_tests := [\<lparr>t_name = ''Login'', t_steps = [step_named ''nope'']\<rparr>]\<rparr>"

section \<open>Properties of the plan executor\<close>

text \<open>The log so far is only extended.\<close>

lemma plan_loop_append:
  "plan_loop N coe i sts (rs @ rs') w =
     (rs @ fst (plan_loop N coe i sts rs' w), snd (plan_loop N coe i sts rs' w))"
proof (induction sts arbitrary: i rs' w)
  case Nil
  show ?case by simp
next
  case (Cons st sts)
  obtain ok m w1 where ps: "plan_step N st w = ((ok, m), w1)"
    by (metis surj_pair)
  show ?case
    using Cons.IH [of "i + 1" "rs' @ [\<lparr>pe_step = i + 1, pe_name = s_name st, pe_ok = ok, pe_message = m\<rparr>]" w1]
    by (simp add: ps Let_def)
qed

lemma plan_loop_acc:
  "plan_loop N coe i sts rs w =
     (rs @ fst (plan_loop N coe i sts [] w), snd (plan_loop N coe i sts [] w))"
  using plan_loop_append [of N coe i sts rs "[]" w] by simp

lemma plan_loop_continue_steps:
  "map pe_step (fst (plan_loop N True i sts [] w)) = [Suc i ..< Suc i + length sts]"
proof (induction sts arbitrary: i w)
  case Nil
  show ?case by simp
next
  case (Cons st sts)
  obtain ok m w1 where ps: "plan_step N st w = ((ok, m), w1)"
    by (metis surj_pair)
  have "map pe_step (fst (plan_loop N True i (st # sts) [] w))
        = Suc i # map pe_step (fst (plan_loop N True (Suc i) sts [] w1))"
    by (simp add: ps Let_def plan_loop_acc [of N True "Suc i" sts "[_]" w1])
  also have "\<dots> = Suc i # [Suc (Suc i) ..< Suc (Suc i) + length sts]"
    by (simp add: Cons.IH)
  also have "\<dots> = [Suc i ..< Suc i + length (st # sts)]"
    using upt_conv_Cons [of "Suc i" "Suc i + length (st # sts)"] by simp
  finally show ?case .
qed

lemma plan_loop_continue_names:
  "map pe_name (fst (plan_loop N True i sts [] w)) = map s_name sts"
proof (induction sts arbitrary: i w)
  case Nil
  show ?case by simp
next
  case (Cons st sts)
  obtain ok m w1 where ps: "plan_step N st w = ((ok, m), w1)"
    by (metis surj_pair)
  show ?case
    by (simp add: ps Let_def plan_loop_acc [of N True "Suc i" sts "[_]" w1] Cons.IH)
qed

text \<open>
  Claim C6. For every plan with \<^verbatim>\<open>continueOnError = true\<close>, whatever the steps do
  and whichever of them fail, the log returned by \<^verbatim>\<open>test_plan_run\<close> has one entry
  per step of the plan, and the entries carry the 1-based indices and the names of the
  steps in execution order.
\<close>

theorem plan_continue_logs_every_step:
  assumes "p_continueOnError input"
  shows "length (fst (test_plan_run N input w)) = length (p_steps input)
       \<and> map pe_step (fst (test_plan_run N input w)) = [1 ..< Suc (length (p_steps input))]
       \<and> map pe_name (fst (test_plan_run N input w)) = map s_name (p_steps input)"
proof -
  have names: "map pe_name (fst (test_plan_run N input w)) = map s_name (p_steps input)"
    using assms by (simp add: test_plan_run_def plan_loop_continue_names)
  have steps: "map pe_step (fst (test_plan_run N input w)) = [1 ..< Suc (length (p_steps input))]"
    using assms by (simp add: test_plan_run_def plan_loop_continue_steps)
  have "length (fst (test_plan_run N input w)) = length (p_steps input)"
    by (metis length_map names)
  then show ?thesis using names steps by blast
qed

theorem plan_continue_logs_every_step_witness:
  "p_continueOnError continue_plan
   \<and> length (fst (test_plan_run no_nested continue_plan initial_world)) = 3
   \<and> map pe_step (fst (test_plan_run no_nested continue_plan initial_world)) = [1, 2, 3]
   \<and> map pe_name (fst (test_plan_run no_nested continue_plan initial_world)) = [''nope'', ''browser_close'', ''page_new'']"
proof -
  have h: "p_continueOnError continue_plan"
    by (simp add: continue_plan_def)
  have steps: "p_steps continue_plan = [step_named ''nope'', step_named ''browser_close'', step_named ''page_new'']"
    by (simp add: continue_plan_def)
  have upt: "[1 ..< Suc (length (p_steps continue_plan))] = [1, 2, 3]"
    unfolding steps by (simp add: upt_conv_Cons)
  show ?thesis
    using h plan_continue_logs_every_step [OF h, of no_nested initial_world] upt
    by (simp add: steps step_named_def)
qed

lemma plan_loop_stops:
  "first_failing_step N sts w = Some k \<Longrightarrow>
     1 \<le> k \<and> k \<le> length sts
     \<and> length (fst (plan_loop N False i sts [] w)) = k
     \<and> \<not> pe_ok (fst (plan_loop N False i sts [] w) ! (k - 1))
     \<and> (\<forall>j < k - 1. pe_ok (fst (plan_loop N False i sts [] w) ! j))
     \<and> plan_loop N False i sts [] w = plan_loop N False i (take k sts) [] w"
proof (induction sts arbitrary: i w k)
  case Nil
  then show ?case by simp
next
  case (Cons st sts)
  obtain ok m w1 where ps: "plan_step N st w = ((ok, m), w1)"
    by (metis surj_pair)
  let ?e = "\<lparr>pe_step = i + 1, pe_name = s_name st, pe_ok = ok, pe_message = m\<rparr>"
  show ?case
  proof (cases ok)
    case False
    with Cons.prems ps have k: "k = 1" by simp
    show ?thesis using False ps k by (simp add: Let_def)
  next
    case True
    with Cons.prems ps obtain k' where k': "first_failing_step N sts w1 = Some k'" and k: "k = Suc k'"
      by auto
    note IH = Cons.IH [OF k', of "i + 1"]
    have IH_len: "length (fst (plan_loop N False (i + 1) sts [] w1)) = k'"
      and IH_bad: "\<not> pe_ok (fst (plan_loop N False (i + 1) sts [] w1) ! (k' - 1))"
      and IH_ok: "\<forall>j < k' - 1. pe_ok (fst (plan_loop N False (i + 1) sts [] w1) ! j)"
      and IH_cut: "plan_loop N False (i + 1) sts [] w1 = plan_loop N False (i + 1) (take k' sts) [] w1"
      and IH_le: "k' \<le> length sts"
      using IH by blast+
    have unfold: "plan_loop N False i (st # sts) [] w
        = (?e # fst (plan_loop N False (i + 1) sts [] w1), snd (plan_loop N False (i + 1) sts [] w1))"
      using True ps by (simp add: Let_def plan_loop_acc [of N False "Suc i" sts "[_]" w1])
    have unfold_take: "plan_loop N False i (take k (st # sts)) [] w
        = (?e # fst (plan_loop N False (i + 1) (take k' sts) [] w1), snd (plan_loop N False (i + 1) (take k' sts) [] w1))"
      using True ps k by (simp add: Let_def plan_loop_acc [of N False "Suc i" "take k' sts" "[_]" w1])
    have pos: "1 \<le> k'" using IH by simp
    have nth_k: "(?e # fst (plan_loop N False (i + 1) sts [] w1)) ! (k - 1) = fst (plan_loop N False (i + 1) sts [] w1) ! (k' - 1)"
      using pos k by (cases k') simp_all
    have before: "\<forall>j < k - 1. pe_ok ((?e # fst (plan_loop N False (i + 1) sts [] w1)) ! j)"
    proof (intro allI impI)
      fix j assume j: "j < k - 1"
      show "pe_ok ((?e # fst (plan_loop N False (i + 1) sts [] w1)) ! j)"
      proof (cases j)
        case 0
        then show ?thesis using True by simp
      next
        case (Suc j')
        then have "j' < k' - 1" using j k by simp
        then show ?thesis using IH_ok Suc by simp
      qed
    qed
    have len: "length (?e # fst (plan_loop N False (i + 1) sts [] w1)) = k"
      using IH_len k by simp
    have bad: "\<not> pe_ok ((?e # fst (plan_loop N False (i + 1) sts [] w1)) ! (k - 1))"
      using IH_bad nth_k by simp
    have cut: "plan_loop N False i (st # sts) [] w = plan_loop N False i (take k (st # sts)) [] w"
      unfolding unfold unfold_take using IH_cut by simp
    have bounds: "1 \<le> k \<and> k \<le> length (st # sts)"
      using k IH_le by simp
    have fst_eq: "fst (plan_loop N False i (st # sts) [] w) = ?e # fst (plan_loop N False (i + 1) sts [] w1)"
      by (simp only: unfold fst_conv)
    show ?thesis
      using bounds len bad before cut unfolding fst_eq by blast
  qed
qed

text \<open>
  Claim C5. For every plan with \<^verbatim>\<open>continueOnError = false\<close> whose step \<open>k\<close> is the
  first to fail (an unknown tool included), the log returned by \<^verbatim>\<open>test_plan_run\<close>
  has exactly \<open>k\<close> entries, entry \<open>k\<close> has \<^verbatim>\<open>ok = false\<close>, the entries before it have
  \<^verbatim>\<open>ok = true\<close>, and no later step is invoked: the log and the world left behind are
  those of the plan cut after step \<open>k\<close>.
\<close>

theorem plan_stops_at_first_failure:
  assumes "\<not> p_continueOnError input" and "first_failing_step N (p_steps input) w = Some k"
  shows "length (fst (test_plan_run N input w)) = k
       \<and> \<not> pe_ok (fst (test_plan_run N input w) ! (k - 1))
       \<and> (\<forall>j < k - 1. pe_ok (fst (test_plan_run N input w) ! j))
       \<and> test_plan_run N input w = test_plan_run N (input\<lparr>p_steps := take k (p_steps input)\<rparr>) w"
proof -
  have coe: "p_continueOnError input = False"
    using assms(1) by simp
  have run: "test_plan_run N input w = plan_loop N False 0 (p_steps input) [] w"
    by (simp add: test_plan_run_def coe)
  have cut: "test_plan_run N (input\<lparr>p_steps := take k (p_steps input)\<rparr>) w
      = plan_loop N False 0 (take k (p_steps input)) [] w"
    by (simp add: test_plan_run_def coe)
  show ?thesis
    unfolding run cut using plan_loop_stops [OF assms(2), of 0] by blast
qed


theorem plan_stops_at_first_failure_witness:
  "\<not> p_continueOnError stop_plan
   \<and> first_failing_step no_nested (p_steps stop_plan) initial_world = Some 2
   \<and> length (fst (test_plan_run no_nested stop_plan initial_world)) = 2
   \<and> \<not> pe_ok (fst (test_plan_run no_nested stop_plan initial_world) ! 1)
   \<and> test_plan_run no_nested stop_plan initial_world
       = test_plan_run no_nested (stop_plan\<lparr>p_steps := take 2 (p_steps stop_plan)\<rparr>) initial_world"
proof -
  have h1: "\<not> p_continueOnError stop_plan"
    by (simp add: stop_plan_def)
  have h2: "first_failing_step no_nested (p_steps stop_plan) initial_world = Some 2"
    by code_simp
  note stops = plan_stops_at_first_failure [OF h1 h2]
  have len: "length (fst (test_plan_run no_nested stop_plan initial_world)) = 2"
    using stops by blast
  have "\<not> pe_ok (fst (test_plan_run no_nested stop_plan initial_world) ! (2 - 1))"
    using stops by blast
  then have bad: "\<not> pe_ok (fst (test_plan_run no_nested stop_plan initial_world) ! 1)"
    by simp
  have cut: "test_plan_run no_nested stop_plan initial_world
       = test_plan_run no_nested (stop_plan\<lparr>p_steps := take 2 (p_steps stop_plan)\<rparr>) initial_world"
    using stops by blast
  show ?thesis
    using h1 h2 len bad cut by blast
qed

section \<open>Properties of the report builder\<close>

text \<open>The five passes of \<^verbatim>\<open>escapeXml\<close> amount to one substitution per character.\<close>

lemma replace_char_Nil: "replace_char c r [] = []"
  by (simp add: replace_char_def)

lemma replace_char_Cons: "replace_char c r (x # xs) = (if x = c then r else [x]) @ replace_char c r xs"
  by (simp add: replace_char_def)

lemma replace_char_append: "replace_char c r (xs @ ys) = replace_char c r xs @ replace_char c r ys"
  by (simp add: replace_char_def)

lemma escapeXml_Nil: "escapeXml [] = []"
  by (simp add: escapeXml_def replace_char_Nil)

lemma escapeXml_Cons: "escapeXml (x # xs) = xml_entity x @ escapeXml xs"
  by (simp add: escapeXml_def xml_entity_def replace_char_Cons replace_char_append replace_char_Nil
      dq_def sq_def)

lemma escapeXml_entities: "escapeXml s = concat (map xml_entity s)"
  by (induction s) (simp_all add: escapeXml_Nil escapeXml_Cons)


lemma xml_entity_count:
  assumes "c \<in> {CHR ''<'', CHR ''>'', dq, sq}"
  shows "count_list (xml_entity x) c = 0"
proof -
  from assms consider "c = CHR ''<''" | "c = CHR ''>''" | "c = CHR 0x22" | "c = CHR 0x27"
    unfolding dq_def sq_def by blast
  then show ?thesis
    by cases (simp_all add: xml_entity_def dq_def sq_def)
qed

lemma escapeXml_count:
  "c \<in> {CHR ''<'', CHR ''>'', dq, sq} \<Longrightarrow> count_list (escapeXml s) c = 0"
  by (induction s) (simp_all add: escapeXml_Nil escapeXml_Cons xml_entity_count del: insert_iff)

lemma digit_char_digit: "d < 10 \<Longrightarrow> digit_char d \<in> set ''0123456789''"
  unfolding digit_char_def by (rule nth_mem) simp

lemma string_of_nat_digits: "set (string_of_nat n) \<subseteq> set ''0123456789''"
proof (induction n rule: string_of_nat.induct)
  case (1 n)
  show ?case
  proof (cases "n < 10")
    case True
    then show ?thesis
      using digit_char_digit [of n] by (subst string_of_nat.simps) simp
  next
    case False
    have "n mod 10 < 10" by simp
    then have "digit_char (n mod 10) \<in> set ''0123456789''"
      by (rule digit_char_digit)
    then show ?thesis
      using False "1.IH" by (subst string_of_nat.simps) simp
  qed
qed

lemma string_of_nat_count:
  "c \<in> {CHR ''<'', CHR ''>'', dq, sq} \<Longrightarrow> count_list (string_of_nat n) c = 0"
proof -
  assume c: "c \<in> {CHR ''<'', CHR ''>'', dq, sq}"
  then have "c \<notin> set ''0123456789''"
    by (auto simp add: dq_def sq_def)
  then have "c \<notin> set (string_of_nat n)"
    using string_of_nat_digits [of n] by blast
  then show ?thesis by simp
qed

lemma junit_open_count:
  "count_list (junit_open a b) (CHR ''<'') = 2"
  "count_list (junit_open a b) (CHR ''>'') = 2"
  "count_list (junit_open a b) dq = 10"
  "count_list (junit_open a b) sq = 0"
  by (simp_all add: junit_open_def dq_def sq_def string_of_nat_count [unfolded dq_def sq_def])

lemma testcase_count:
  "count_list (testcase t) (CHR ''<'') = (if e_ok t then 1 else 3)"
  "count_list (testcase t) (CHR ''>'') = (if e_ok t then 1 else 3)"
  "count_list (testcase t) dq = (if e_ok t then 2 else 4)"
  "count_list (testcase t) sq = 0"
  by (simp_all add: testcase_def dq_def sq_def escapeXml_count [unfolded dq_def sq_def])

lemma cases_count:
  "count_list (concat (map testcase ts)) (CHR ''<'') = length ts + 2 * failures ts"
  "count_list (concat (map testcase ts)) (CHR ''>'') = length ts + 2 * failures ts"
  "count_list (concat (map testcase ts)) dq = 2 * length ts + 2 * failures ts"
  "count_list (concat (map testcase ts)) sq = 0"
  by (induction ts) (simp_all add: testcase_count failures_def)

lemma buildJUnit_unfold:
  "buildJUnit rs = junit_open (length (r_tests rs)) (failures (r_tests rs))
     @ concat (map testcase (r_tests rs)) @ ''</testsuite>''"
  by (simp add: buildJUnit_def has_boolean_ok_def failures_def Let_def)

text \<open>Every ampersand that \<^verbatim>\<open>escapeXml\<close> and the report builder write opens an entity.\<close>

lemma starts_with_append: "starts_with p s \<Longrightarrow> starts_with p (s @ t)"
  by (induction p s rule: starts_with.induct) simp_all

lemma ampersands_escaped_append:
  "ampersands_escaped xs \<Longrightarrow> ampersands_escaped ys \<Longrightarrow> ampersands_escaped (xs @ ys)"
proof (induction xs)
  case Nil
  then show ?case by simp
next
  case (Cons c cs)
  have "list_ex (\<lambda>e. starts_with e cs) entity_names \<Longrightarrow> list_ex (\<lambda>e. starts_with e (cs @ ys)) entity_names"
    unfolding list_ex_iff using starts_with_append by blast
  then show ?case
    using Cons by (simp split: if_splits)
qed

lemma no_ampersand_escaped: "CHR ''&'' \<notin> set xs \<Longrightarrow> ampersands_escaped xs"
  by (induction xs) auto

lemma xml_entity_ampersands:
  "ampersands_escaped rest \<Longrightarrow> ampersands_escaped (xml_entity x @ rest)"
  by (simp add: xml_entity_def entity_names_def dq_def sq_def)

lemma escapeXml_ampersands: "ampersands_escaped (escapeXml s)"
  by (induction s) (simp_all add: escapeXml_Nil escapeXml_Cons xml_entity_ampersands)

lemma string_of_nat_no_ampersand: "CHR ''&'' \<notin> set (string_of_nat n)"
  using string_of_nat_digits [of n] by auto

lemma junit_open_ampersands: "ampersands_escaped (junit_open a b)"
  by (rule no_ampersand_escaped) (simp add: junit_open_def dq_def string_of_nat_no_ampersand)

lemma testcase_ampersands: "ampersands_escaped (testcase t)"
proof -
  have quote: "ampersands_escaped [dq]"
    by (simp add: dq_def)
  have "ampersands_escaped ''<testcase name=''" "ampersands_escaped ''/>''"
    "ampersands_escaped ''><failure message=''" "ampersands_escaped ''/></testcase>''"
    by simp_all
  then show ?thesis
    unfolding testcase_def
    by (cases "e_ok t") (simp_all only: if_True if_False ampersands_escaped_append escapeXml_ampersands quote)
qed

lemma cases_ampersands: "ampersands_escaped (concat (map testcase ts))"
  by (induction ts) (simp_all add: ampersands_escaped_append testcase_ampersands)

lemma buildJUnit_ampersands: "ampersands_escaped (buildJUnit rs)"
  unfolding buildJUnit_unfold
  by (intro ampersands_escaped_append junit_open_ampersands cases_ampersands no_ampersand_escaped) simp

lemma testcase_entities:
  "testcase t = ''<testcase name='' @ [dq] @ entity_text (e_name t) @ [dq]
     @ (if e_ok t then ''/>''
        else ''><failure message='' @ [dq] @ entity_text (error_or_default t) @ [dq] @ ''/></testcase>'')"
  by (simp add: testcase_def entity_text_def escapeXml_entities)


lemma buildJUnit_entities:
  "buildJUnit rs =
     junit_open (length (r_tests rs)) (failures (r_tests rs))
     @ concat (map (\<lambda>t. ''<testcase name='' @ [dq] @ entity_text (e_name t) @ [dq]
                      @ (if e_ok t then ''/>''
                         else ''><failure message='' @ [dq] @ entity_text (error_or_default t) @ [dq]
                              @ ''/></testcase>''))
         (r_tests rs))
     @ ''</testsuite>''"
  unfolding buildJUnit_unfold using testcase_entities by presburger

text \<open>
  Claim C8. The report is a function of the entries of \<^verbatim>\<open>results.tests\<close> alone, so
  rendering the same result twice gives the same text. The report is its markup around
  the names and the error messages of the entries, each with every ampersand, angle
  bracket, double quote and apostrophe replaced by its entity: the five passes of
  \<^verbatim>\<open>escapeXml\<close> give that text, a text whose ampersands each open an entity and that
  holds none of the other four characters. Hence every ampersand of a report opens an
  entity, the numbers of \<open><\<close>, \<open>>\<close> and double quotes in a report are those of its
  markup (fixed by the number of entries and of failed entries), whatever the names and
  messages hold, and a report has no apostrophe.
\<close>

theorem report_is_escaped_function_of_tests:
  "(r_tests rs = r_tests rs' \<longrightarrow> buildJUnit rs = buildJUnit rs')
   \<and> buildJUnit rs =
       junit_open (length (r_tests rs)) (failures (r_tests rs))
       @ concat (map (\<lambda>t. ''<testcase name='' @ [dq] @ entity_text (e_name t) @ [dq]
                        @ (if e_ok t then ''/>''
                           else ''><failure message='' @ [dq] @ entity_text (error_or_default t) @ [dq]
                                @ ''/></testcase>''))
           (r_tests rs))
       @ ''</testsuite>''
   \<and> ampersands_escaped (buildJUnit rs)
   \<and> escapeXml s = entity_text s
   \<and> ampersands_escaped (escapeXml s)
   \<and> set (escapeXml s) \<inter> {CHR ''<'', CHR ''>'', dq, sq} = {}
   \<and> count_list (buildJUnit rs) (CHR ''<'') = 3 + length (r_tests rs) + 2 * failures (r_tests rs)
   \<and> count_list (buildJUnit rs) (CHR ''>'') = 3 + length (r_tests rs) + 2 * failures (r_tests rs)
   \<and> count_list (buildJUnit rs) dq = 10 + 2 * length (r_tests rs) + 2 * failures (r_tests rs)
   \<and> count_list (buildJUnit rs) sq = 0"
proof -
  have pure: "r_tests rs = r_tests rs' \<longrightarrow> buildJUnit rs = buildJUnit rs'"
    by (simp add: buildJUnit_unfold)
  have entities: "escapeXml s = entity_text s"
    by (simp add: entity_text_def escapeXml_entities)
  have "\<And>c. c \<in> {CHR ''<'', CHR ''>'', dq, sq} \<Longrightarrow> c \<notin> set (escapeXml s)"
    using escapeXml_count [of _ s] count_list_0_iff [of "escapeXml s"] by blast
  then have reserved: "set (escapeXml s) \<inter> {CHR ''<'', CHR ''>'', dq, sq} = {}"
    by blast
  have lt: "count_list (buildJUnit rs) (CHR ''<'') = 3 + length (r_tests rs) + 2 * failures (r_tests rs)"
    by (simp add: buildJUnit_unfold junit_open_count cases_count)
  have gt: "count_list (buildJUnit rs) (CHR ''>'') = 3 + length (r_tests rs) + 2 * failures (r_tests rs)"
    by (simp add: buildJUnit_unfold junit_open_count cases_count)
  have quot: "count_list (buildJUnit rs) dq = 10 + 2 * length (r_tests rs) + 2 * failures (r_tests rs)"
    by (simp add: buildJUnit_unfold junit_open_count cases_count) (simp add: dq_def)
  have apos: "count_list (buildJUnit rs) sq = 0"
    by (simp add: buildJUnit_unfold junit_open_count cases_count) (simp add: sq_def)
  show ?thesis
    using pure buildJUnit_entities [of rs] buildJUnit_ampersands [of rs] entities
      escapeXml_ampersands [of s] reserved lt gt quot apos
    by blast
qed

theorem report_is_escaped_function_of_tests_witness:
  "r_tests mixed_results = r_tests (mixed_results\<lparr>r_junit := Some ''old''\<rparr>)
   \<and> buildJUnit mixed_results = buildJUnit (mixed_results\<lparr>r_junit := Some ''old''\<rparr>)
   \<and> buildJUnit mixed_results =
       ''<?xml version='' @ [dq] @ ''1.0'' @ [dq] @ '' encoding='' @ [dq] @ ''UTF-8'' @ [dq]
       @ ''?><testsuite name='' @ [dq] @ ''mcp-web-autotest'' @ [dq]
       @ '' tests='' @ [dq] @ ''3'' @ [dq] @ '' failures='' @ [dq] @ ''2'' @ [dq] @ ''>''
       @ ''<testcase name='' @ [dq] @ ''a&lt;b'' @ [dq] @ ''/>''
       @ ''<testcase name='' @ [dq] @ ''Q&amp;A'' @ [dq] @ ''><failure message='' @ [dq]
       @ ''it&apos;s &quot;bad&quot; &amp;lt;'' @ [dq] @ ''/></testcase>''
       @ ''<testcase name='' @ [dq] @ ''x&gt;y'' @ [dq] @ ''><failure message='' @ [dq]
       @ ''error'' @ [dq] @ ''/></testcase>''
       @ ''</testsuite>''
   \<and> ampersands_escaped (buildJUnit mixed_results)
   \<and> \<not> ampersands_escaped ''Q&A''
   \<and> escapeXml ''Q&A <b>'' = ''Q&amp;A &lt;b&gt;''
   \<and> count_list (buildJUnit mixed_results) (CHR ''<'') = 10
   \<and> count_list (buildJUnit mixed_results) dq = 20"
proof -
  note report = report_is_escaped_function_of_tests
    [of mixed_results "mixed_results\<lparr>r_junit := Some ''old''\<rparr>" "''Q&A <b>''"]
  have same: "r_tests mixed_results = r_tests (mixed_results\<lparr>r_junit := Some ''old''\<rparr>)"
    by simp
  have equal: "buildJUnit mixed_results = buildJUnit (mixed_results\<lparr>r_junit := Some ''old''\<rparr>)"
    using report same by blast
  have size: "length (r_tests mixed_results) = 3" "failures (r_tests mixed_results) = 2"
    by (simp_all add: mixed_results_def failures_def)
  have three: "string_of_nat 3 = ''3''" and two: "string_of_nat 2 = ''2''"
    by (simp_all add: string_of_nat.simps [of 3] string_of_nat.simps [of 2] digit_char_def)
  have "buildJUnit mixed_results =
       junit_open (length (r_tests mixed_results)) (failures (r_tests mixed_results))
       @ concat (map (\<lambda>t. ''<testcase name='' @ [dq] @ entity_text (e_name t) @ [dq]
                        @ (if e_ok t then ''/>''
                           else ''><failure message='' @ [dq] @ entity_text (error_or_default t) @ [dq]
                                @ ''/></testcase>''))
           (r_tests mixed_results))
       @ ''</testsuite>''"
    using report by blast
  then have rendered: "buildJUnit mixed_results =
       ''<?xml version='' @ [dq] @ ''1.0'' @ [dq] @ '' encoding='' @ [dq] @ ''UTF-8'' @ [dq]
       @ ''?><testsuite name='' @ [dq] @ ''mcp-web-autotest'' @ [dq]
       @ '' tests='' @ [dq] @ ''3'' @ [dq] @ '' failures='' @ [dq] @ ''2'' @ [dq] @ ''>''
       @ ''<testcase name='' @ [dq] @ ''a&lt;b'' @ [dq] @ ''/>''
       @ ''<testcase name='' @ [dq] @ ''Q&amp;A'' @ [dq] @ ''><failure message='' @ [dq]
       @ ''it&apos;s &quot;bad&quot; &amp;lt;'' @ [dq] @ ''/></testcase>''
       @ ''<testcase name='' @ [dq] @ ''x&gt;y'' @ [dq] @ ''><failure message='' @ [dq]
       @ ''error'' @ [dq] @ ''/></testcase>''
       @ ''</testsuite>''"
    unfolding size junit_open_def three two
    by (simp add: mixed_results_def empty_results_def entity_text_def xml_entity_def
        error_or_default_def dq_def sq_def)
  have amp: "ampersands_escaped (buildJUnit mixed_results)"
    using report by blast
  have bare: "\<not> ampersands_escaped ''Q&A''"
    by (simp add: entity_names_def)
  have "escapeXml ''Q&A <b>'' = entity_text ''Q&A <b>''"
    using report by blast
  then have escaped: "escapeXml ''Q&A <b>'' = ''Q&amp;A &lt;b&gt;''"
    by (simp add: entity_text_def xml_entity_def dq_def sq_def)
  have "count_list (buildJUnit mixed_results) (CHR ''<'')
      = 3 + length (r_tests mixed_results) + 2 * failures (r_tests mixed_results)"
    using report by blast
  then have lt: "count_list (buildJUnit mixed_results) (CHR ''<'') = 10"
    by (simp add: size)
  have "count_list (buildJUnit mixed_results) dq
      = 10 + 2 * length (r_tests mixed_results) + 2 * failures (r_tests mixed_results)"
    using report by blast
  then have quot: "count_list (buildJUnit mixed_results) dq = 20"
    by (simp add: size)
  show ?thesis
    using same equal rendered amp bare escaped lt quot by blast
qed

section \<open>Properties of the browser state\<close>

lemma browser_open_headless_arg:
  "browser_open (input\<lparr>a_headless := h\<rparr>) w = browser_open input w"
  by (simp add: browser_open_def launchArgs_def)

lemma browser_open_launches_headful:
  "fst (browser_open input w) = Done \<Longrightarrow>
     browser (snd (browser_open input w)) = Some (Browser False (launchArgs input))"
  by (auto simp add: browser_open_def and_then_def driver_def nextPageId_def Let_def
      split: option.splits list.splits outcome.splits prod.splits)

lemma runSteps_headless:
  "runSteps N (input\<lparr>su_headless := h\<rparr>) sts ph r w = runSteps N input sts ph r w"
  by (induction sts arbitrary: r w) (simp_all add: Let_def split: prod.splits outcome.splits)

lemma trace_call_headless:
  "trace_call (input\<lparr>su_headless := h\<rparr>) w = trace_call input w"
  by (simp add: trace_call_def)

lemma attempt_body_headless:
  "attempt_body N (input\<lparr>su_headless := h\<rparr>) t r w = attempt_body N input t r w"
  unfolding attempt_body_def trace_call_headless runSteps_headless by (rule refl)

lemma on_failure_headless:
  "on_failure (input\<lparr>su_headless := h\<rparr>) dir t a arts w = on_failure input dir t a arts w"
  by (simp add: on_failure_def)

lemma retries_of_headless: "retries_of (input\<lparr>su_headless := h\<rparr>) = retries_of input"
  by (simp add: retries_of_def)

lemma attempts_headless:
  "attempts N (input\<lparr>su_headless := h\<rparr>) dir t a ok lastErr arts r w
     = attempts N input dir t a ok lastErr arts r w"
proof (induction N input dir t a ok lastErr arts r w rule: attempts.induct)
  case (1 N input dir t attempt ok lastErr arts r w)
  show ?case
    apply (subst attempts.simps)
    apply (subst (2) attempts.simps)
    apply (simp add: retries_of_headless attempt_body_headless on_failure_headless
        split: prod.splits option.splits)
    using "1.IH" apply (auto simp add: retries_of_headless)
    done
qed

lemma run_tests_headless:
  "run_tests N (input\<lparr>su_headless := h\<rparr>) dir ts r w = run_tests N input dir ts r w"
  by (induction ts arbitrary: r w) (simp_all add: attempts_headless Let_def split: prod.splits)

lemma suite_phases_headless:
  "suite_acquire (input\<lparr>su_headless := h\<rparr>) w = suite_acquire input w"
  "suite_setup N (input\<lparr>su_headless := h\<rparr>) r w = suite_setup N input r w"
  "artifactsDir (input\<lparr>su_headless := h\<rparr>) w = artifactsDir input w"
  "ensureDir (input\<lparr>su_headless := h\<rparr>) w = ensureDir input w"
  "su_tests (input\<lparr>su_headless := h\<rparr>) = su_tests input"
  "suite_teardown N (input\<lparr>su_headless := h\<rparr>) r w = suite_teardown N input r w"
  "suite_report (input\<lparr>su_headless := h\<rparr>) r w = suite_report input r w"
  "suite_release (input\<lparr>su_headless := h\<rparr>) w = suite_release input w"
proof -
  show "suite_acquire (input\<lparr>su_headless := h\<rparr>) w = suite_acquire input w"
    using browser_open_headless_arg [where input = no_arguments and h = h and w = w]
      browser_open_headless_arg [where input = no_arguments and h = "su_headless input" and w = w]
    by (simp add: suite_acquire_def shouldAutoBrowser_def)
qed (simp_all add: suite_setup_def suite_teardown_def suite_report_def suite_release_def
    artifactsDir_def ensureDir_def shouldAutoBrowser_def runSteps_headless)

lemma suite_body_headless:
  "suite_body N (input\<lparr>su_headless := h\<rparr>) w = suite_body N input w"
  unfolding suite_body_def suite_phases_headless run_tests_headless by (rule refl)

text \<open>
  Claim C10. \<^verbatim>\<open>browser_open\<close> does not read its \<^verbatim>\<open>headless\<close> argument: calls
  that differ only in it behave alike, and a call that returns has launched the browser
  with \<^verbatim>\<open>headless: false\<close>. So the \<^verbatim>\<open>headless\<close> option of a suite has no effect
  on \<^verbatim>\<open>test_suite_run\<close> either.
\<close>

theorem browser_open_ignores_headless:
  "browser_open (input\<lparr>a_headless := h\<rparr>) w = browser_open input w
   \<and> (fst (browser_open input w) = Done \<longrightarrow>
        browser (snd (browser_open input w)) = Some (Browser False (launchArgs input)))
   \<and> test_suite_run N (s\<lparr>su_headless := h\<rparr>) w = test_suite_run N s w"
proof -
  have "test_suite_run N (s\<lparr>su_headless := h\<rparr>) w = test_suite_run N s w"
    unfolding test_suite_run_def suite_body_headless suite_phases_headless by (rule refl)
  then show ?thesis
    using browser_open_headless_arg browser_open_launches_headful by blast
qed

theorem browser_open_ignores_headless_witness:
  "fst (browser_open (no_arguments\<lparr>a_headless := Some True\<rparr>) initial_world) = Done
   \<and> browser_open (no_arguments\<lparr>a_headless := Some True\<rparr>) initial_world = browser_open no_arguments initial_world
   \<and> browser (snd (browser_open (no_arguments\<lparr>a_headless := Some True\<rparr>) initial_world))
       = Some (Browser False [''--disable-extensions'', ''--disable-component-extensions-with-background-pages'',
            ''--disable-features=ExtensionsToolbarMenu''])
   \<and> test_suite_run no_nested headless_suite initial_world = test_suite_run no_nested plain_suite initial_world"
proof -
  have returns: "fst (browser_open no_arguments initial_world) = Done"
    by code_simp
  have args: "launchArgs no_arguments = [''--disable-extensions'', ''--disable-component-extensions-with-background-pages'',
            ''--disable-features=ExtensionsToolbarMenu'']"
    by (simp add: launchArgs_def no_arguments_def)
  note ignores = browser_open_ignores_headless
    [where input = no_arguments and h = "Some True" and w = initial_world and N = no_nested and s = plain_suite]
  have same: "browser_open (no_arguments\<lparr>a_headless := Some True\<rparr>) initial_world = browser_open no_arguments initial_world"
    using ignores by blast
  have launched: "browser (snd (browser_open no_arguments initial_world)) = Some (Browser False (launchArgs no_arguments))"
    using ignores returns by blast
  have suite: "test_suite_run no_nested headless_suite initial_world = test_suite_run no_nested plain_suite initial_world"
    unfolding headless_suite_def using ignores by blast
  show ?thesis
    using returns same launched suite by (simp add: args)
qed


subsection \<open>The page table\<close>

lemma map_of_map_set: "map_of (map_set k v ps) = (map_of ps)(k \<mapsto> v)"
  by (induction ps) auto

lemma map_of_map_delete: "map_of (map_delete k ps) k' = (if k' = k then None else map_of ps k')"
  by (induction ps) (auto simp add: map_delete_def)

lemma first_key_stored: "first_key ps = Some k \<Longrightarrow> \<exists>p. map_of ps k = Some p"
  by (cases ps) (auto simp add: first_key_def)

lemma first_key_is_key: "first_key ps = Some k \<Longrightarrow> k \<in> fst ` set ps"
  by (cases ps) (auto simp add: first_key_def)

lemma map_delete_keys: "fst ` set (map_delete k ps) \<subseteq> fst ` set ps"
  by (auto simp add: map_delete_def)

lemma page_table_ok_iff:
  "page_table_ok w \<longleftrightarrow>
     currentPageId w = None \<and> page w = None
     \<or> (\<exists>k p. currentPageId w = Some k \<and> map_of (pages w) k = Some p \<and> page w = Some p)"
  by (auto simp add: page_table_ok_def split: option.splits)

lemma page_table_ok_script: "page_table_ok (w\<lparr>script := xs\<rparr>) = page_table_ok w"
  by (simp add: page_table_ok_iff)

lemma driver_state:
  "driver w = (x, w1) \<Longrightarrow>
     browser w1 = browser w \<and> page w1 = page w \<and> pages w1 = pages w
     \<and> currentPageId w1 = currentPageId w \<and> pageIdCounter w1 = pageIdCounter w \<and> fresh w1 = fresh w"
  by (auto simp add: driver_def split: list.splits)

lemma driver_page_table: "driver w = (x, w1) \<Longrightarrow> page_table_ok w1 = page_table_ok w"
  using driver_state [of w x w1] by (simp add: page_table_ok_iff)

text \<open>
  \<^verbatim>\<open>browser_open\<close>, \<^verbatim>\<open>browser_close\<close>, \<^verbatim>\<open>page_new\<close> and
  \<^verbatim>\<open>page_switch\<close> keep the page table consistent, whether they return or throw.
\<close>

lemma browser_open_page_table:
  assumes "page_table_ok w"
  shows "page_table_ok (snd (browser_open input w))"
proof -
  obtain x1 w1 where d1: "(case browser w of None \<Rightarrow> (Done, w) | Some b \<Rightarrow> driver w) = (x1, w1)"
    by (metis surj_pair)
  then have ok1: "page_table_ok w1"
    using assms driver_page_table [of w x1 w1] by (auto split: option.splits)
  obtain x2 w2 where d2: "driver w1 = (x2, w2)" by (metis surj_pair)
  have ok2: "page_table_ok w2" using ok1 driver_page_table [OF d2] by simp
  obtain x3 w3 where d3: "driver (w2\<lparr>browser := Some (Browser False (launchArgs input))\<rparr>) = (x3, w3)"
    by (metis surj_pair)
  have ok3: "page_table_ok w3"
    using ok2 driver_page_table [OF d3] by (simp add: page_table_ok_iff)
  obtain x4 w4 where d4: "driver w3 = (x4, w4)" by (metis surj_pair)
  have ok4: "page_table_ok w4" using ok3 driver_page_table [OF d4] by simp
  show ?thesis
    using ok1 ok2 ok3 ok4
    by (cases x1; cases x2; cases x3; cases x4)
      (simp_all add: browser_open_def and_then_def d1 d2 d3 d4 Let_def nextPageId_def page_table_ok_iff)
qed

lemma browser_close_page_table:
  assumes "page_table_ok w"
  shows "page_table_ok (snd (browser_close w))"
proof (cases "browser w")
  case None
  then show ?thesis using assms by (simp add: browser_close_def)
next
  case (Some b)
  obtain x w1 where d: "driver w = (x, w1)" by (metis surj_pair)
  have "page_table_ok w1" using assms driver_page_table [OF d] by simp
  then show ?thesis
    using Some by (cases x) (simp_all add: browser_close_def and_then_def d page_table_ok_iff)
qed

lemma page_new_page_table:
  assumes "page_table_ok w"
  shows "page_table_ok (snd (page_new input w))"
proof (cases "ensurePage w")
  case (Inl m)
  then show ?thesis using assms by (simp add: page_new_def)
next
  case (Inr p)
  obtain x w1 where d: "driver w = (x, w1)" by (metis surj_pair)
  have "page_table_ok w1" using assms driver_page_table [OF d] by simp
  then show ?thesis
    using Inr
    by (cases x; cases "a_id input")
      (simp_all add: page_new_def and_then_def d Let_def nextPageId_def page_table_ok_iff map_of_map_set)
qed

lemma page_switch_page_table:
  assumes "page_table_ok w"
  shows "page_table_ok (snd (page_switch input w))"
  using assms by (simp add: page_switch_def page_table_ok_iff split: option.splits)

text \<open>
  \<^verbatim>\<open>page_close\<close> keeps it consistent as long as no page is stored under the empty
  string.
\<close>

lemma delete_page_page_table:
  assumes "page_table_ok w" and "[] \<notin> fst ` set (pages w)"
  shows "page_table_ok (delete_page pid w)"
proof (cases "currentPageId w = Some pid")
  case True
  show ?thesis
  proof (cases "first_key (map_delete pid (pages w))")
    case None
    then show ?thesis using True by (simp add: delete_page_def page_table_ok_iff)
  next
    case (Some k)
    obtain p where p: "map_of (map_delete pid (pages w)) k = Some p"
      using first_key_stored [OF Some] by blast
    have "k \<in> fst ` set (pages w)"
      using first_key_is_key [OF Some] map_delete_keys by blast
    then have "k \<noteq> []" using assms(2) by blast
    then show ?thesis using True Some p by (simp add: delete_page_def page_table_ok_iff)
  qed
next
  case False
  then show ?thesis
    using assms(1) by (auto simp add: delete_page_def page_table_ok_iff map_of_map_delete)
qed

lemma page_close_page_table:
  assumes "page_table_ok w" and "[] \<notin> fst ` set (pages w)"
  shows "page_table_ok (snd (page_close input w))"
proof -
  obtain x w1 where d: "driver w = (x, w1)" by (metis surj_pair)
  note st = driver_state [OF d]
  have ok1: "page_table_ok w1" using assms(1) driver_page_table [OF d] by simp
  have "[] \<notin> fst ` set (pages w1)" using assms(2) st by simp
  then have closed: "page_table_ok (delete_page pid w1)" for pid
    using ok1 delete_page_page_table by blast
  show ?thesis
    using assms(1) ok1 closed
    by (cases x) (simp_all add: page_close_def and_then_def d split: option.splits)
qed

text \<open>
  Claim C9 at its failing input. With a page stored under the empty string and
  another page current, closing the current page makes the empty string the current id
  and leaves no current page, although a page is stored under that id.
\<close>

theorem page_close_loses_current_page:
  "page_table_ok empty_id_world
   \<and> pages empty_id_world = [(''page1'', 0), ([], 1)]
   \<and> currentPageId empty_id_world = Some ''page1''
   \<and> fst (parse_and_call no_nested (step_named ''page_close'') empty_id_world) = Done
   \<and> currentPageId (snd (parse_and_call no_nested (step_named ''page_close'') empty_id_world)) = Some []
   \<and> map_of (pages (snd (parse_and_call no_nested (step_named ''page_close'') empty_id_world))) [] = Some 1
   \<and> page (snd (parse_and_call no_nested (step_named ''page_close'') empty_id_world)) = None
   \<and> \<not> page_table_ok (snd (parse_and_call no_nested (step_named ''page_close'') empty_id_world))"
  by code_simp

section \<open>Properties of the suite executor\<close>

subsection \<open>What a phase adds to the result\<close>

lemma append_log_Nil: "append_log ph [] r = r"
  by (cases ph) (simp_all add: append_log_def)

lemma append_log_push: "append_log ph new (push_entry ph a r) = append_log ph (a # new) r"
  by (cases ph) (simp_all add: append_log_def push_entry_def)

lemma append_log_append: "append_log ph new2 (append_log ph new1 r) = append_log ph (new1 @ new2) r"
  by (cases ph) (simp_all add: append_log_def)

lemma append_log_test_entry:
  "r\<lparr>r_tests := r_tests r @ [a]\<rparr> = append_log TestPhase [a] r"
  by (simp add: append_log_def)

lemma append_log_logs:
  "r_setup (append_log ph new r) = (if ph = SetupPhase then r_setup r @ new else r_setup r)"
  "r_tests (append_log ph new r) = (if ph = TestPhase then r_tests r @ new else r_tests r)"
  "r_teardown (append_log ph new r) = (if ph = TeardownPhase then r_teardown r @ new else r_teardown r)"
  "r_junit (append_log ph new r) = r_junit r"
  by (cases ph; simp add: append_log_def)+

text \<open>
  \<^verbatim>\<open>runSteps\<close> pushes one entry per step it reaches, named after the step, on the log
  of its phase and touches nothing else of the result. It reaches every step unless it
  throws; it throws only when \<^verbatim>\<open>continueOnError\<close> is false, and then the last entry is
  the failed step's.
\<close>

lemma runSteps_log:
  "runSteps N input sts ph r w = (e, r', w') \<Longrightarrow>
     \<exists>new. r' = append_log ph new r
       \<and> map e_name new = map s_name (take (length new) sts) \<and> length new \<le> length sts
       \<and> (e = None \<longrightarrow> length new = length sts)
       \<and> (e \<noteq> None \<longrightarrow> \<not> su_continueOnError input \<and> new \<noteq> [] \<and> \<not> e_ok (last new))"
proof (induction sts arbitrary: r w)
  case Nil
  then show ?case
    by (intro exI [of _ "[]"]) (simp add: append_log_Nil)
next
  case (Cons st sts)
  obtain x w1 where step: "suite_step N st w = (x, w1)"
    by (metis surj_pair)
  show ?case
  proof (cases x)
    case Done
    let ?a = "StepEntry (s_name st) True None"
    from Cons.prems step Done
    have "runSteps N input sts ph (push_entry ph ?a r) w1 = (e, r', w')"
      by simp
    from Cons.IH [OF this] obtain new where new:
      "r' = append_log ph new (push_entry ph ?a r)"
      "map e_name new = map s_name (take (length new) sts)" "length new \<le> length sts"
      "e = None \<longrightarrow> length new = length sts"
      "e \<noteq> None \<longrightarrow> \<not> su_continueOnError input \<and> new \<noteq> [] \<and> \<not> e_ok (last new)"
      by blast
    show ?thesis
      using new by (intro exI [of _ "?a # new"]) (simp add: append_log_push)
  next
    case (Throws m)
    let ?a = "StepEntry (s_name st) False (Some m)"
    show ?thesis
    proof (cases "su_continueOnError input")
      case False
      with Cons.prems step Throws
      have "e = Some m" "r' = push_entry ph ?a r"
        by (auto simp add: Let_def)
      then show ?thesis
        using False append_log_push [of ph "[]" ?a r]
        by (intro exI [of _ "[?a]"]) (simp add: append_log_Nil)
    next
      case True
      with Cons.prems step Throws
      have "runSteps N input sts ph (push_entry ph ?a r) w1 = (e, r', w')"
        by (simp add: Let_def)
      from Cons.IH [OF this] obtain new where new:
        "r' = append_log ph new (push_entry ph ?a r)"
        "map e_name new = map s_name (take (length new) sts)" "length new \<le> length sts"
        "e = None \<longrightarrow> length new = length sts"
        "e \<noteq> None \<longrightarrow> \<not> su_continueOnError input \<and> new \<noteq> [] \<and> \<not> e_ok (last new)"
        by blast
      show ?thesis
        using new True by (intro exI [of _ "?a # new"]) (simp add: append_log_push)
    qed
  qed
qed

lemma attempt_body_log:
  "attempt_body N input t r w = (e, ok1, r', w') \<Longrightarrow> \<exists>new. r' = append_log TestPhase new r"
proof -
  assume a: "attempt_body N input t r w = (e, ok1, r', w')"
  obtain x w1 where tc: "trace_call input w = (x, w1)" by (metis surj_pair)
  obtain e2 r2 w2 where rs: "runSteps N input (t_steps t) TestPhase r w1 = (e2, r2, w2)"
    by (metis prod_cases3)
  obtain new where new: "r2 = append_log TestPhase new r"
    using runSteps_log [OF rs] by blast
  have "r' = r \<or> r' = r2"
    using a tc rs by (cases x; cases e2) (auto simp add: attempt_body_def split: prod.splits outcome.splits)
  then show ?thesis
    using new append_log_Nil [of TestPhase r] by metis
qed

lemma attempts_log:
  "attempts N input dir t a ok lastErr arts r w = (a', ok', lastErr', arts', r', w') \<Longrightarrow>
     \<exists>new. r' = append_log TestPhase new r"
proof (induction N input dir t a ok lastErr arts r w rule: attempts.induct)
  case (1 N input dir t attempt ok lastErr arts r w)
  note run = "1.prems"
  show ?case
  proof (cases "int attempt \<le> retries_of input")
    case False
    with run have "r' = r" by (simp add: attempts.simps)
    then show ?thesis using append_log_Nil [of TestPhase r] by metis
  next
    case True
    obtain e ok1 r1 w1 where body: "attempt_body N input t r w = (e, ok1, r1, w1)"
      by (metis prod_cases4)
    obtain new1 where new1: "r1 = append_log TestPhase new1 r"
      using attempt_body_log [OF body] by blast
    show ?thesis
    proof (cases e)
      case None
      with run True body have "r' = r1" by (simp add: attempts.simps)
      then show ?thesis using new1 by blast
    next
      case (Some m)
      obtain arts1 w2 where cap: "on_failure input dir t (attempt + 1) arts w1 = (arts1, w2)"
        by (metis surj_pair)
      show ?thesis
      proof (cases "int (attempt + 1) > retries_of input")
        case over: True
        with run True body Some cap have "r' = r1" by (simp add: attempts.simps)
        then show ?thesis using new1 by blast
      next
        case again: False
        with run True body Some cap
        have "attempts N input dir t (attempt + 1) (ok \<or> ok1) (Some m) arts1 r1 w2
            = (a', ok', lastErr', arts', r', w')"
          by (simp add: attempts.simps)
        from "1.IH" [OF True body [symmetric] Some refl refl cap [symmetric] again this]
        obtain new2 where "r' = append_log TestPhase new2 r1"
          by blast
        then show ?thesis
          using new1 append_log_append by metis
      qed
    qed
  qed
qed

lemma run_tests_log:
  "run_tests N input dir ts r w = (r', w') \<Longrightarrow> \<exists>new. r' = append_log TestPhase new r"
proof (induction ts arbitrary: r w)
  case Nil
  then have "r' = r" by simp
  then show ?case using append_log_Nil [of TestPhase r] by metis
next
  case (Cons t ts)
  obtain a ok lastErr arts r1 w1 where att:
    "attempts N input dir t 0 False None [] r w = (a, ok, lastErr, arts, r1, w1)"
    by (metis prod_cases4 surj_pair)
  obtain new1 where new1: "r1 = append_log TestPhase new1 r"
    using attempts_log [OF att] by blast
  let ?a = "TestEntry (t_name t) ok (if ok then None else Some (error_text lastErr)) arts"
  have r2: "r1\<lparr>r_tests := r_tests r1 @ [?a]\<rparr> = append_log TestPhase (new1 @ [?a]) r"
    using new1 by (simp add: append_log_test_entry append_log_append)
  show ?case
  proof (cases "\<not> ok \<and> \<not> su_continueOnError input")
    case True
    with Cons.prems att have "r' = r1\<lparr>r_tests := r_tests r1 @ [?a]\<rparr>"
      by (auto simp add: Let_def)
    then show ?thesis using r2 by metis
  next
    case False
    with Cons.prems att
    have "run_tests N input dir ts (r1\<lparr>r_tests := r_tests r1 @ [?a]\<rparr>) w1 = (r', w')"
      by (auto simp add: Let_def)
    from Cons.IH [OF this] obtain new2 where "r' = append_log TestPhase new2 (r1\<lparr>r_tests := r_tests r1 @ [?a]\<rparr>)"
      by blast
    then show ?thesis
      using r2 append_log_append by metis
  qed
qed


lemma suite_setup_log:
  assumes "suite_setup N input r w = (e, r', w')"
  shows "\<exists>new. r' = append_log SetupPhase new r \<and> (e \<noteq> None \<longrightarrow> \<not> su_continueOnError input)"
proof (cases "su_setup input = []")
  case True
  with assms have "r' = r" "e = None" by (simp_all add: suite_setup_def)
  then show ?thesis using append_log_Nil [of SetupPhase r] by metis
next
  case False
  with assms have "runSteps N input (su_setup input) SetupPhase r w = (e, r', w')"
    by (simp add: suite_setup_def)
  from runSteps_log [OF this] show ?thesis by blast
qed

lemma suite_teardown_log:
  assumes "suite_teardown N input r w = (e, r', w')"
  shows "\<exists>new. r' = append_log TeardownPhase new r
       \<and> map e_name new = map s_name (take (length new) (su_teardown input))
       \<and> length new \<le> length (su_teardown input)
       \<and> (e = None \<longrightarrow> length new = length (su_teardown input))
       \<and> (e \<noteq> None \<longrightarrow> \<not> su_continueOnError input \<and> new \<noteq> [] \<and> \<not> e_ok (last new))"
proof (cases "su_teardown input = []")
  case True
  with assms have "r' = r" "e = None" by (simp_all add: suite_teardown_def)
  then show ?thesis
    using True append_log_Nil [of TeardownPhase r] by (intro exI [of _ "[]"]) simp
next
  case False
  with assms have "runSteps N input (su_teardown input) TeardownPhase r w = (e, r', w')"
    by (simp add: suite_teardown_def)
  from runSteps_log [OF this] show ?thesis by blast
qed

lemma suite_report_logs:
  assumes "suite_report input r w = (e, r', w')"
  shows "r_setup r' = r_setup r \<and> r_tests r' = r_tests r \<and> r_teardown r' = r_teardown r"
  using assms
  by (auto simp add: suite_report_def Let_def split: if_splits prod.splits outcome.splits)

text \<open>The call when the setup phase throws, and the teardown log when it returns.\<close>

lemma suite_setup_throws:
  assumes "suite_acquire input w = (Done, w1)"
    and "suite_setup N input empty_results w1 = (Some m, r2, w2)"
  shows "\<not> su_continueOnError input \<and> test_suite_run N input w = (Some m, r2, w2)
       \<and> r_tests r2 = [] \<and> r_teardown r2 = []"
proof -
  obtain new where "r2 = append_log SetupPhase new empty_results" and "\<not> su_continueOnError input"
    using suite_setup_log [OF assms(2)] by blast
  then have "r_tests r2 = []" "r_teardown r2 = []" "\<not> su_continueOnError input"
    by (simp_all add: append_log_logs empty_results_def)
  moreover have "test_suite_run N input w = (Some m, r2, w2)"
    by (simp add: test_suite_run_def suite_body_def assms)
  ultimately show ?thesis by blast
qed

lemma suite_teardown_once:
  assumes "suite_acquire input w = (Done, w1)"
    and "suite_setup N input empty_results w1 = (None, r2, w2)"
  shows "ran_prefix (su_teardown input) (r_teardown (fst (snd (test_suite_run N input w))))
       \<and> (fst (test_suite_run N input w) = None \<or> su_continueOnError input \<longrightarrow>
            length (r_teardown (fst (snd (test_suite_run N input w)))) = length (su_teardown input))
       \<and> (length (r_teardown (fst (snd (test_suite_run N input w)))) < length (su_teardown input) \<longrightarrow>
            fst (test_suite_run N input w) \<noteq> None
            \<and> r_teardown (fst (snd (test_suite_run N input w))) \<noteq> []
            \<and> \<not> e_ok (last (r_teardown (fst (snd (test_suite_run N input w))))))"
proof -
  obtain new2 where r2: "r2 = append_log SetupPhase new2 empty_results"
    using suite_setup_log [OF assms(2)] by blast
  obtain r3 w3 where tests:
    "run_tests N input (artifactsDir input w2) (su_tests input) r2 (ensureDir input w2) = (r3, w3)"
    by (metis surj_pair)
  obtain new3 where r3: "r3 = append_log TestPhase new3 r2"
    using run_tests_log [OF tests] by blast
  have before: "r_teardown r3 = []"
    by (simp add: r3 r2 append_log_logs empty_results_def)
  obtain e4 r4 w4 where teardown: "suite_teardown N input r3 w3 = (e4, r4, w4)"
    by (metis prod_cases3)
  obtain new4 where new4: "r4 = append_log TeardownPhase new4 r3"
    "map e_name new4 = map s_name (take (length new4) (su_teardown input))"
    "length new4 \<le> length (su_teardown input)"
    "e4 = None \<longrightarrow> length new4 = length (su_teardown input)"
    "e4 \<noteq> None \<longrightarrow> \<not> su_continueOnError input \<and> new4 \<noteq> [] \<and> \<not> e_ok (last new4)"
    using suite_teardown_log [OF teardown] by blast
  have log4: "r_teardown r4 = new4"
    by (simp add: new4(1) append_log_logs before)
  obtain e5 r5 w5 where report: "suite_report input r4 w4 = (e5, r5, w5)"
    by (metis prod_cases3)
  have log5: "r_teardown r5 = new4"
    using suite_report_logs [OF report] log4 by simp
  have body: "suite_body N input w = (if e4 = None then (e5, r5, w5) else (e4, r4, w4))"
    by (cases e4) (simp_all add: suite_body_def assms tests teardown report)
  have run: "r_teardown (fst (snd (test_suite_run N input w))) = new4
      \<and> (e4 \<noteq> None \<longrightarrow> fst (test_suite_run N input w) \<noteq> None)"
    by (cases e4; cases e5) (simp_all add: test_suite_run_def body log4 log5)
  show ?thesis
    using run new4 by (auto simp add: ran_prefix_def)
qed

text \<open>
  Claim C2, as the code has it. When the browser was acquired and the setup phase
  returned (no setup, every setup step passed, or \<^verbatim>\<open>continueOnError\<close> is true), the
  teardown steps are run once per call, whatever the tests did: the teardown log holds
  the teardown steps once each and in order, all of them when the call returns or
  \<^verbatim>\<open>continueOnError\<close> is true, and up to a failed step when teardown itself throws.
  When the setup phase throws, \<^verbatim>\<open>continueOnError\<close> is false and the call throws the
  same error at once: the result has no entry of a test or of teardown, and the world is
  the one setup left, the browser not released.
\<close>

theorem teardown_once_unless_setup_throws:
  assumes "suite_acquire input w = (Done, w1)"
  shows "(\<forall>r2 w2. suite_setup N input empty_results w1 = (None, r2, w2) \<longrightarrow>
            ran_prefix (su_teardown input) (r_teardown (fst (snd (test_suite_run N input w))))
            \<and> (fst (test_suite_run N input w) = None \<or> su_continueOnError input \<longrightarrow>
                 length (r_teardown (fst (snd (test_suite_run N input w)))) = length (su_teardown input))
            \<and> (length (r_teardown (fst (snd (test_suite_run N input w)))) < length (su_teardown input) \<longrightarrow>
                 fst (test_suite_run N input w) \<noteq> None
                 \<and> r_teardown (fst (snd (test_suite_run N input w))) \<noteq> []
                 \<and> \<not> e_ok (last (r_teardown (fst (snd (test_suite_run N input w)))))))
       \<and> (\<forall>m r2 w2. suite_setup N input empty_results w1 = (Some m, r2, w2) \<longrightarrow>
            \<not> su_continueOnError input \<and> test_suite_run N input w = (Some m, r2, w2)
            \<and> r_tests r2 = [] \<and> r_teardown r2 = [])"
  using suite_teardown_once [OF assms] suite_setup_throws [OF assms] by blast

text \<open>
  Claim C2 as stated fails: when a setup step fails and \<^verbatim>\<open>continueOnError\<close> is
  false, the call throws with an empty teardown log, the tab teardown would have opened
  does not exist, and the browser this call acquired is still open.
\<close>

theorem setup_failure_skips_teardown_and_release:
  "browser initial_world = None
   \<and> fst (test_suite_run no_nested setup_fails_suite initial_world) = Some msg_unknown_tool
   \<and> r_tests (fst (snd (test_suite_run no_nested setup_fails_suite initial_world))) = []
   \<and> r_teardown (fst (snd (test_suite_run no_nested setup_fails_suite initial_world))) = []
   \<and> pages (snd (snd (test_suite_run no_nested setup_fails_suite initial_world))) = [(''page1'', 0)]
   \<and> browser (snd (snd (test_suite_run no_nested setup_fails_suite initial_world)))
       = Some (Browser False (launchArgs no_arguments))"
  by code_simp

theorem teardown_once_unless_setup_throws_witness:
  "suite_acquire tests_fail_suite initial_world = (Done, open_world)
   \<and> fst (suite_setup no_nested tests_fail_suite empty_results open_world) = None
   \<and> map e_ok (filter is_test_entry (r_tests (fst (snd (test_suite_run no_nested tests_fail_suite initial_world))))) = [False]
   \<and> ran_prefix (su_teardown tests_fail_suite)
        (r_teardown (fst (snd (test_suite_run no_nested tests_fail_suite initial_world))))
   \<and> length (r_teardown (fst (snd (test_suite_run no_nested tests_fail_suite initial_world)))) = 2
   \<and> suite_acquire setup_fails_suite initial_world = (Done, open_world)
   \<and> fst (suite_setup no_nested setup_fails_suite empty_results open_world) = Some msg_unknown_tool
   \<and> fst (test_suite_run no_nested setup_fails_suite initial_world) = Some msg_unknown_tool
   \<and> snd (snd (test_suite_run no_nested setup_fails_suite initial_world)) = open_world
   \<and> suite_acquire teardown_fails_suite initial_world = (Done, open_world)
   \<and> fst (suite_setup no_nested teardown_fails_suite empty_results open_world) = None
   \<and> length (r_teardown (fst (snd (test_suite_run no_nested teardown_fails_suite initial_world)))) = 1
   \<and> fst (test_suite_run no_nested teardown_fails_suite initial_world) \<noteq> None
   \<and> \<not> e_ok (last (r_teardown (fst (snd (test_suite_run no_nested teardown_fails_suite initial_world)))))"
proof -
  have acq1: "suite_acquire tests_fail_suite initial_world = (Done, open_world)"
    by code_simp
  have set1: "fst (suite_setup no_nested tests_fail_suite empty_results open_world) = None"
    by code_simp
  then have setup1: "suite_setup no_nested tests_fail_suite empty_results open_world
      = (None, fst (snd (suite_setup no_nested tests_fail_suite empty_results open_world)),
           snd (snd (suite_setup no_nested tests_fail_suite empty_results open_world)))"
    by (metis prod.collapse)
  have returns1: "fst (test_suite_run no_nested tests_fail_suite initial_world) = None"
    by code_simp
  have failed1: "map e_ok (filter is_test_entry (r_tests (fst (snd (test_suite_run no_nested tests_fail_suite initial_world))))) = [False]"
    by code_simp
  note once = teardown_once_unless_setup_throws [OF acq1, of no_nested]
  have prefix: "ran_prefix (su_teardown tests_fail_suite)
        (r_teardown (fst (snd (test_suite_run no_nested tests_fail_suite initial_world))))"
    using once setup1 by blast
  have "length (r_teardown (fst (snd (test_suite_run no_nested tests_fail_suite initial_world))))
      = length (su_teardown tests_fail_suite)"
    using once setup1 returns1 by blast
  then have len: "length (r_teardown (fst (snd (test_suite_run no_nested tests_fail_suite initial_world)))) = 2"
    by (simp add: tests_fail_suite_def)
  have acq2: "suite_acquire setup_fails_suite initial_world = (Done, open_world)"
    by code_simp
  have set2: "fst (suite_setup no_nested setup_fails_suite empty_results open_world) = Some msg_unknown_tool"
    by code_simp
  have world2: "snd (snd (suite_setup no_nested setup_fails_suite empty_results open_world)) = open_world"
    by code_simp
  have setup2: "suite_setup no_nested setup_fails_suite empty_results open_world
      = (Some msg_unknown_tool, fst (snd (suite_setup no_nested setup_fails_suite empty_results open_world)), open_world)"
    using set2 world2 by (metis prod.collapse)
  note throws = teardown_once_unless_setup_throws [OF acq2, of no_nested]
  have run2: "test_suite_run no_nested setup_fails_suite initial_world
      = (Some msg_unknown_tool, fst (snd (suite_setup no_nested setup_fails_suite empty_results open_world)), open_world)"
    using throws setup2 by blast
  have thrown2: "fst (test_suite_run no_nested setup_fails_suite initial_world) = Some msg_unknown_tool"
    and left2: "snd (snd (test_suite_run no_nested setup_fails_suite initial_world)) = open_world"
    by (simp_all add: run2)
  have acq3: "suite_acquire teardown_fails_suite initial_world = (Done, open_world)"
    by code_simp
  have set3: "fst (suite_setup no_nested teardown_fails_suite empty_results open_world) = None"
    by code_simp
  then have setup3: "suite_setup no_nested teardown_fails_suite empty_results open_world
      = (None, fst (snd (suite_setup no_nested teardown_fails_suite empty_results open_world)),
           snd (snd (suite_setup no_nested teardown_fails_suite empty_results open_world)))"
    by (metis prod.collapse)
  have len3: "length (r_teardown (fst (snd (test_suite_run no_nested teardown_fails_suite initial_world)))) = 1"
    by code_simp
  then have short3: "length (r_teardown (fst (snd (test_suite_run no_nested teardown_fails_suite initial_world))))
      < length (su_teardown teardown_fails_suite)"
    by (simp add: teardown_fails_suite_def)
  note stopped = teardown_once_unless_setup_throws [OF acq3, of no_nested]
  have thrown3: "fst (test_suite_run no_nested teardown_fails_suite initial_world) \<noteq> None"
    and failed3: "\<not> e_ok (last (r_teardown (fst (snd (test_suite_run no_nested teardown_fails_suite initial_world)))))"
    using stopped setup3 short3 by blast+
  show ?thesis
    using acq1 set1 failed1 prefix len acq2 set2 thrown2 left2 acq3 set3 len3 thrown3 failed3 by blast
qed

subsection \<open>The release of the browser\<close>

lemma browser_close_released:
  "browser (snd (browser_close w)) = None \<longleftrightarrow> fst (browser_close w) = Done"
  by (auto simp add: browser_close_def and_then_def driver_def split: option.splits list.splits outcome.splits)

text \<open>
  Claim C7, as the code has it. The release never changes what the call throws or
  returns. It is made exactly when the call got to its end without throwing and
  \<^verbatim>\<open>autoBrowser\<close> is not false, whether this call opened the browser or found it open:
  the world is then the one \<^verbatim>\<open>browser_close\<close> leaves, with no browser unless the
  close itself failed, a failure the call swallows. Otherwise the world stays as the earlier
  phases left it.
\<close>

theorem release_follows_autoBrowser:
  "fst (test_suite_run N input w) = fst (suite_body N input w)
   \<and> fst (snd (test_suite_run N input w)) = fst (snd (suite_body N input w))
   \<and> (fst (suite_body N input w) = None \<and> shouldAutoBrowser input \<longrightarrow>
        snd (snd (test_suite_run N input w)) = snd (browser_close (snd (snd (suite_body N input w))))
        \<and> (browser (snd (snd (test_suite_run N input w))) = None
             \<longleftrightarrow> fst (browser_close (snd (snd (suite_body N input w)))) = Done))
   \<and> (\<not> (fst (suite_body N input w) = None \<and> shouldAutoBrowser input) \<longrightarrow>
        snd (snd (test_suite_run N input w)) = snd (snd (suite_body N input w)))"
proof -
  obtain e r w5 where body: "suite_body N input w = (e, r, w5)"
    by (metis prod_cases3)
  show ?thesis
    by (cases e) (simp_all add: test_suite_run_def body suite_release_def browser_close_released)
qed


text \<open>
  Claim C7 as stated fails: a browser held before the call, which the call therefore did
  not acquire, is closed by the call.
\<close>

theorem release_closes_held_browser:
  "browser open_world = Some (Browser False (launchArgs no_arguments))
   \<and> suite_acquire plain_suite open_world = (Done, open_world)
   \<and> fst (test_suite_run no_nested plain_suite open_world) = None
   \<and> browser (snd (snd (test_suite_run no_nested plain_suite open_world))) = None"
  by code_simp

theorem release_follows_autoBrowser_witness:
  "fst (suite_body no_nested plain_suite stuck_world) = None
   \<and> shouldAutoBrowser plain_suite
   \<and> fst (browser_close (snd (snd (suite_body no_nested plain_suite stuck_world)))) = Throws ''close failed''
   \<and> fst (test_suite_run no_nested plain_suite stuck_world) = None
   \<and> fst (snd (test_suite_run no_nested plain_suite stuck_world)) = empty_results
   \<and> browser (snd (snd (test_suite_run no_nested plain_suite stuck_world))) \<noteq> None
   \<and> \<not> shouldAutoBrowser (plain_suite\<lparr>su_autoBrowser := Some False\<rparr>)
   \<and> snd (snd (test_suite_run no_nested (plain_suite\<lparr>su_autoBrowser := Some False\<rparr>) open_world)) = open_world"
proof -
  note release = release_follows_autoBrowser [of no_nested plain_suite stuck_world]
  have body: "fst (suite_body no_nested plain_suite stuck_world) = None"
    by code_simp
  have auto: "shouldAutoBrowser plain_suite"
    by code_simp
  have close: "fst (browser_close (snd (snd (suite_body no_nested plain_suite stuck_world)))) = Throws ''close failed''"
    by code_simp
  have res: "fst (snd (suite_body no_nested plain_suite stuck_world)) = empty_results"
    by code_simp
  have returns: "fst (test_suite_run no_nested plain_suite stuck_world) = None"
    using release body by simp
  have same: "fst (snd (test_suite_run no_nested plain_suite stuck_world)) = empty_results"
    using release res by simp
  have "browser (snd (snd (test_suite_run no_nested plain_suite stuck_world))) = None
      \<longleftrightarrow> fst (browser_close (snd (snd (suite_body no_nested plain_suite stuck_world)))) = Done"
    using release body auto by blast
  then have kept: "browser (snd (snd (test_suite_run no_nested plain_suite stuck_world))) \<noteq> None"
    using close by simp
  note manual = release_follows_autoBrowser [of no_nested "plain_suite\<lparr>su_autoBrowser := Some False\<rparr>" open_world]
  have off: "\<not> shouldAutoBrowser (plain_suite\<lparr>su_autoBrowser := Some False\<rparr>)"
    by code_simp
  have left: "snd (snd (suite_body no_nested (plain_suite\<lparr>su_autoBrowser := Some False\<rparr>) open_world)) = open_world"
    by code_simp
  have untouched: "snd (snd (test_suite_run no_nested (plain_suite\<lparr>su_autoBrowser := Some False\<rparr>) open_world)) = open_world"
    using manual off left by simp
  show ?thesis
    using body auto close returns same kept off untouched by blast
qed

subsection \<open>Tests, attempts and the report of a run\<close>

text \<open>
  Without \<^verbatim>\<open>traceOnFailure\<close> the retry loop counts as the specification says. From
  the top of an iteration with counter \<open>a\<close> and \<^verbatim>\<open>ok\<close> false, it ends with counter
  \<open>a'\<close>, the number of failed attempts: with \<^verbatim>\<open>ok\<close> true after at most
  \<^verbatim>\<open>retries\<close> failed attempts (the attempt that passed is the last one made), or with
  \<^verbatim>\<open>ok\<close> false after \<^verbatim>\<open>retries + 1\<close> attempts and with the last error kept. The
  artifacts are screenshots of failed attempts, at most one per attempt and in order,
  named by the 1-based number of the attempt.
\<close>

lemma attempt_body_without_trace:
  assumes "\<not> su_traceOnFailure input"
  shows "attempt_body N input t r w =
     (case runSteps N input (t_steps t) TestPhase r w of
        (None, r2, w2) \<Rightarrow> (None, True, r2, w2)
      | (Some m, r2, w2) \<Rightarrow> (Some m, False, r2, w2))"
  using assms by (simp add: attempt_body_def trace_call_def split: prod.splits option.splits)

lemma on_failure_without_trace:
  assumes "\<not> su_traceOnFailure input"
    and "on_failure input dir t k arts w = (arts1, w1)"
  shows "arts1 = arts \<or> (su_onFailureScreenshot input \<and> arts1 = arts @ [artifact_file dir t k ''.png''])"
  using assms
  by (auto simp add: on_failure_def capture_def split: if_splits sum.splits prod.splits outcome.splits)

lemma attempts_without_trace:
  assumes "\<not> su_traceOnFailure input" and "\<not> ok"
    and "attempts N input dir t a ok lastErr arts r w = (a', ok', lastErr', arts', r', w')"
  shows "a \<le> a'
       \<and> (ok' \<longrightarrow> int a' \<le> retries_of input)
       \<and> (\<not> ok' \<longrightarrow> int a' = max (int a) (retries_of input + 1))
       \<and> (\<not> ok' \<and> int a \<le> retries_of input \<longrightarrow> lastErr' \<noteq> None)
       \<and> (\<exists>ks. arts' = arts @ map (\<lambda>k. artifact_file dir t k ''.png'') ks
              \<and> sorted_wrt (<) ks \<and> set ks \<subseteq> {a + 1 .. a'})"
  using assms
proof (induction N input dir t a ok lastErr arts r w rule: attempts.induct)
  case (1 N input dir t attempt ok lastErr arts r w)
  note notrace = "1.prems"(1) and notok = "1.prems"(2) and run = "1.prems"(3)
  show ?case
  proof (cases "int attempt \<le> retries_of input")
    case False
    with run have "a' = attempt" "ok' = ok" "arts' = arts"
      by (simp_all add: attempts.simps)
    then show ?thesis
      using False notok by (auto intro: exI [of _ "[]"])
  next
    case True
    obtain e ok1 r1 w1 where body: "attempt_body N input t r w = (e, ok1, r1, w1)"
      by (metis prod_cases4)
    have flag: "ok1 \<longleftrightarrow> e = None"
      using body attempt_body_without_trace [OF notrace, of N t r w]
      by (auto split: prod.splits option.splits)
    show ?thesis
    proof (cases e)
      case None
      with run True body have "a' = attempt" "ok' = True" "arts' = arts"
        by (simp_all add: attempts.simps)
      then show ?thesis
        using True by (auto intro: exI [of _ "[]"])
    next
      case (Some m)
      then have ok1: "\<not> ok1" using flag by simp
      obtain arts1 w2 where cap: "on_failure input dir t (attempt + 1) arts w1 = (arts1, w2)"
        by (metis surj_pair)
      from on_failure_without_trace [OF notrace cap]
      obtain k1 where k1: "arts1 = arts @ map (\<lambda>k. artifact_file dir t k ''.png'') k1"
        "k1 = [] \<or> k1 = [attempt + 1]"
        by (metis append_Nil2 list.simps(8) list.simps(9))
      show ?thesis
      proof (cases "int (attempt + 1) > retries_of input")
        case over: True
        with run True body Some cap
        have fin: "a' = attempt + 1" "ok' = (ok \<or> ok1)" "lastErr' = Some m" "arts' = arts1"
          by (simp_all add: attempts.simps)
        have "sorted_wrt (<) k1 \<and> set k1 \<subseteq> {attempt + 1 .. a'}"
          using k1(2) fin(1) by auto
        then show ?thesis
          using fin k1(1) notok ok1 over True by auto
      next
        case again: False
        with run True body Some cap
        have next_run: "attempts N input dir t (attempt + 1) (ok \<or> ok1) (Some m) arts1 r1 w2
            = (a', ok', lastErr', arts', r', w')"
          by (simp add: attempts.simps)
        have still: "\<not> (ok \<or> ok1)" using notok ok1 by simp
        note IH = "1.IH" [OF True body [symmetric] Some refl refl cap [symmetric] again notrace still next_run]
        from IH obtain ks where ks: "arts' = arts1 @ map (\<lambda>k. artifact_file dir t k ''.png'') ks"
          "sorted_wrt (<) ks" "set ks \<subseteq> {attempt + 1 + 1 .. a'}"
          by blast
        have le: "attempt + 1 \<le> a'" using IH by blast
        have "arts' = arts @ map (\<lambda>k. artifact_file dir t k ''.png'') (k1 @ ks)"
          using ks(1) k1(1) by simp
        moreover have "sorted_wrt (<) (k1 @ ks)"
          using ks(2,3) k1(2) by (auto simp add: sorted_wrt_append)
        moreover have "set (k1 @ ks) \<subseteq> {attempt + 1 .. a'}"
          using ks(3) k1(2) le by auto
        ultimately have arts: "\<exists>ks. arts' = arts @ map (\<lambda>k. artifact_file dir t k ''.png'') ks
              \<and> sorted_wrt (<) ks \<and> set ks \<subseteq> {attempt + 1 .. a'}"
          by blast
        have "int a' = max (int (attempt + 1)) (retries_of input + 1)" if "\<not> ok'"
          using IH that by blast
        then have count: "\<not> ok' \<longrightarrow> int a' = max (int attempt) (retries_of input + 1)"
          using again by auto
        have err: "\<not> ok' \<and> int attempt \<le> retries_of input \<longrightarrow> lastErr' \<noteq> None"
          using IH again by auto
        show ?thesis
          using IH le arts count err by auto
      qed
    qed
  qed
qed

lemma login_screenshot:
  "r_tests (fst (snd (test_suite_run no_nested login_suite initial_world)))
     = [StepEntry ''nope'' False (Some msg_unknown_tool),
        TestEntry ''Login'' False (Some msg_unknown_tool) [''/srv/artifacts_0/Login_attempt1.png'']]"
  by code_simp

text \<open>
  With \<^verbatim>\<open>continueOnError\<close> true (and no tracing) \<^verbatim>\<open>runSteps\<close> never throws, so
  the first attempt of every test passes, whatever its steps did.
\<close>

lemma lenient_attempt_passes:
  assumes "su_continueOnError input" and "\<not> su_traceOnFailure input" and "0 \<le> retries_of input"
  shows "fst (attempts N input dir t 0 ok lastErr arts r w) = 0
       \<and> fst (snd (attempts N input dir t 0 ok lastErr arts r w)) = True"
proof -
  obtain e r2 w2 where run: "runSteps N input (t_steps t) TestPhase r w = (e, r2, w2)"
    by (metis prod_cases3)
  have "e = None"
    using runSteps_log [OF run] assms(1) by blast
  then have "attempt_body N input t r w = (None, True, r2, w2)"
    using run attempt_body_without_trace [OF assms(2), of N t r w] by simp
  then have "attempts N input dir t 0 ok lastErr arts r w = (0, True, lastErr, arts, r2, w2)"
    using assms(3) by (subst attempts.simps) simp
  then show ?thesis by simp
qed

text \<open>
  Claim C1 at its failing input. \<^verbatim>\<open>runSteps\<close> reads the suite's
  \<^verbatim>\<open>continueOnError\<close> in the test phase too: with it true, the failed step is logged
  and swallowed, the attempt counts as passed, and the test is reported with
  \<^verbatim>\<open>ok: true\<close> after one attempt, the retry unused. The same suite with
  \<^verbatim>\<open>continueOnError: false\<close> makes both attempts and reports the test failed.
\<close>

theorem failed_step_passes_test:
  "su_continueOnError lenient_suite
   \<and> attempts no_nested lenient_suite ''artifacts'' \<lparr>t_name = ''T'', t_steps = [step_named ''nope'']\<rparr>
        0 False None [] empty_results initial_world
       = (0, True, None, [], empty_results\<lparr>r_tests := [StepEntry ''nope'' False (Some msg_unknown_tool)]\<rparr>,
          initial_world)
   \<and> test_suite_run no_nested lenient_suite initial_world
       = (None,
          empty_results\<lparr>r_tests := [StepEntry ''nope'' False (Some msg_unknown_tool), TestEntry ''T'' True None []]\<rparr>,
          initial_world)
   \<and> test_suite_run no_nested (lenient_suite\<lparr>su_continueOnError := False\<rparr>) initial_world
       = (None,
          empty_results\<lparr>r_tests := [StepEntry ''nope'' False (Some msg_unknown_tool),
            StepEntry ''nope'' False (Some msg_unknown_tool),
            TestEntry ''T'' False (Some msg_unknown_tool) []]\<rparr>,
          initial_world)"
  by code_simp

text \<open>
  Claim C3 at its failing input. The steps of a test are logged on
  \<^verbatim>\<open>results.tests\<close> next to the tests, and \<^verbatim>\<open>buildJUnit\<close> counts and renders
  every entry: for two tests of one step each, one passing and one failing, the report
  has \<^verbatim>\<open>tests="4" failures="2"\<close> and two \<^verbatim>\<open>testcase\<close> elements with a
  \<^verbatim>\<open>failure\<close> child.
\<close>

theorem report_counts_steps_as_tests:
  "r_tests (fst (snd (test_suite_run no_nested two_tests_suite initial_world)))
     = [StepEntry ''browser_close'' True None, TestEntry ''A'' True None [],
        StepEntry ''nope'' False (Some msg_unknown_tool), TestEntry ''B'' False (Some msg_unknown_tool) []]
   \<and> r_junit (fst (snd (test_suite_run no_nested two_tests_suite initial_world)))
     = Some (junit_open 4 2
         @ ''<testcase name='' @ [dq] @ ''browser_close'' @ [dq] @ ''/>''
         @ ''<testcase name='' @ [dq] @ ''A'' @ [dq] @ ''/>''
         @ ''<testcase name='' @ [dq] @ ''nope'' @ [dq] @ ''><failure message='' @ [dq] @ ''error'' @ [dq] @ ''/></testcase>''
         @ ''<testcase name='' @ [dq] @ ''B'' @ [dq] @ ''><failure message='' @ [dq] @ msg_unknown_tool @ [dq] @ ''/></testcase>''
         @ ''</testsuite>'')"
  by code_simp

text \<open>
  Claim C4 at its failing input. With \<^verbatim>\<open>traceOnFailure\<close>, a test whose steps all
  pass but leave no page (here the test closes the browser) throws after
  \<^verbatim>\<open>ok = true\<close>, in the \<^verbatim>\<open>ensurePage()\<close> before \<^verbatim>\<open>tracing.stop()\<close>. The
  \<^verbatim>\<open>catch\<close> block counts a failed attempt and the loop goes on: with
  \<^verbatim>\<open>retries: 1\<close> a second attempt follows the first, whose steps all passed, the
  counter of failed attempts ends at 2, and the test is reported with \<^verbatim>\<open>ok: true\<close>.
\<close>

theorem retry_after_passing_attempt:
  "runSteps no_nested traced_suite (t_steps closing_test) TestPhase empty_results open_world
     = (None, empty_results\<lparr>r_tests := [StepEntry ''browser_close'' True None]\<rparr>,
        snd (browser_close open_world))
   \<and> fst (attempts no_nested traced_suite ''artifacts'' closing_test 0 False None [] empty_results open_world) = 2
   \<and> fst (snd (attempts no_nested traced_suite ''artifacts'' closing_test 0 False None [] empty_results open_world)) = True
   \<and> r_tests (fst (snd (test_suite_run no_nested traced_suite open_world)))
       = [StepEntry ''browser_close'' True None, TestEntry ''T'' True None []]"
  by code_simp

end
